theory Spec2Isabelle
  imports Complex_Main "HOL-Library.Sublist"
begin

section \<open>Credential rotation (service module, Groq API key rotation)\<close>

text \<open>
  The module keeps the pool \<open>GROQ_API_KEYS\<close> (the configured keys that are present and
  non-empty), the cyclic pointer \<open>currentGroqKeyIndex\<close> and the map
  \<open>keyFailureCounts\<close>. The pool is fixed after start-up and is passed as a parameter;
  the two mutable variables form the record \<open>rotor\<close>, threaded through every function
  that touches them.
\<close>

definition Boolean :: "string option \<Rightarrow> bool" where
  "Boolean v = (case v of None \<Rightarrow> False | Some s \<Rightarrow> s \<noteq> [])"

text \<open>\<open>[key1, key2, key3].filter(Boolean)\<close> on the three environment variables.\<close>

definition GROQ_API_KEYS :: "string option \<Rightarrow> string option \<Rightarrow> string option \<Rightarrow> string list" where
  "GROQ_API_KEYS k1 k2 k3 =
     concat (map (\<lambda>v. case v of None \<Rightarrow> [] | Some s \<Rightarrow> [s]) (filter Boolean [k1, k2, k3]))"

record rotor =
  currentGroqKeyIndex :: nat
  keyFailureCounts :: "string \<rightharpoonup> nat"

definition rotor_init :: rotor where
  "rotor_init = \<lparr>currentGroqKeyIndex = 0, keyFailureCounts = Map.empty\<rparr>"

text \<open>\<open>keyFailureCounts.get(key) || 0\<close>\<close>

definition failures_of :: "rotor \<Rightarrow> string \<Rightarrow> nat" where
  "failures_of r key = (case keyFailureCounts r key of None \<Rightarrow> 0 | Some n \<Rightarrow> n)"

text \<open>
  The \<open>for\<close> loop of \<open>getNextGroqApiKey\<close>, from iteration \<open>i\<close> on: \<open>Some\<close> is the
  \<open>return\<close> inside the loop, \<open>None\<close> is the loop running to its end.
\<close>

function getNextGroqApiKey_loop :: "string list \<Rightarrow> rotor \<Rightarrow> nat \<Rightarrow> (string \<times> rotor) option" where
  "getNextGroqApiKey_loop keys r i =
     (if i < length keys then
        (let index = (currentGroqKeyIndex r + i) mod length keys;
             key = keys ! index;
             failures = failures_of r key
         in if failures < 3
            then Some (key, r\<lparr>currentGroqKeyIndex := (index + 1) mod length keys\<rparr>)
            else getNextGroqApiKey_loop keys r (i + 1))
      else None)"
  by pat_completeness auto
termination
  by (relation "measure (\<lambda>(keys, r, i). length keys - i)") auto

text \<open>
  \<open>getNextGroqApiKey\<close>. The result is \<open>None\<close> where the source returns \<open>undefined\<close>
  (\<open>GROQ_API_KEYS[0]\<close> of an empty pool).
\<close>

definition getNextGroqApiKey :: "string list \<Rightarrow> rotor \<Rightarrow> string option \<times> rotor" where
  "getNextGroqApiKey keys r =
     (case getNextGroqApiKey_loop keys r 0 of
        Some (key, r') \<Rightarrow> (Some key, r')
      | None \<Rightarrow>
          (case keys of [] \<Rightarrow> None | k # _ \<Rightarrow> Some k,
           r\<lparr>keyFailureCounts := Map.empty, currentGroqKeyIndex := 0\<rparr>))"

text \<open>
  \<open>markGroqKeyFailed\<close> increments the count of the key; the timer it sets runs
  \<open>keyFailureCounts.delete(apiKey)\<close> sixty seconds later, which is the separate
  transition \<open>failure_timer_fired\<close>. When timers fire relative to other calls is not
  part of the model. The function is only called with a key handed out for a non-empty
  pool, so the case of an \<open>undefined\<close> key is never reached.
\<close>

definition markGroqKeyFailed :: "string option \<Rightarrow> rotor \<Rightarrow> rotor" where
  "markGroqKeyFailed apiKey r =
     (case apiKey of
        None \<Rightarrow> r
      | Some key \<Rightarrow> r\<lparr>keyFailureCounts := (keyFailureCounts r)(key \<mapsto> failures_of r key + 1)\<rparr>)"

definition failure_timer_fired :: "string \<Rightarrow> rotor \<Rightarrow> rotor" where
  "failure_timer_fired key r = r\<lparr>keyFailureCounts := (keyFailureCounts r)(key := None)\<rparr>"

section \<open>Provider failover (\<open>invokeLLMWithFallback\<close>)\<close>

text \<open>
  A thrown error carries an optional \<open>message\<close> and an optional HTTP \<open>status\<close>.
  A provider response is represented by its \<open>content\<close>.
\<close>

record js_error =
  message :: "string option"
  status :: "nat option"

type_synonym response = string

text \<open>\<open>String.prototype.includes\<close>: the pattern occurs as a contiguous substring.\<close>

fun includes_str :: "string \<Rightarrow> string \<Rightarrow> bool" where
  "includes_str [] p = (p = [])"
| "includes_str (c # cs) p = (prefix p (c # cs) \<or> includes_str cs p)"

text \<open>\<open>error.message?.includes('rate') || error.status === 429\<close>\<close>

definition is_rate_limited :: "js_error \<Rightarrow> bool" where
  "is_rate_limited e =
     ((case message e of None \<Rightarrow> False | Some m \<Rightarrow> includes_str m ''rate'') \<or> status e = Some 429)"

text \<open>
  The providers are outside the program. \<open>openai_invoke\<close> is the outcome of building the
  OpenAI client and awaiting \<open>invoke(prompt)\<close> (one call of \<open>invokeLLMWithFallback\<close>
  makes at most one); \<open>groq_invoke\<close> is the outcome of awaiting \<open>llm.invoke(prompt)\<close> on
  the Groq client built with the given key, in the given iteration of the loop.
\<close>

record providers =
  OPENAI_API_KEY :: "string option"
  openai_invoke :: "string \<Rightarrow> js_error + response"
  groq_invoke :: "nat \<Rightarrow> string option \<Rightarrow> string \<Rightarrow> js_error + response"

text \<open>The calls made, in order, with their outcomes.\<close>

datatype call =
    CallOpenAI "js_error + response"
  | CallGroq "string option" "js_error + response"
  | MarkGroqKeyFailed "string option"

text \<open>
  \<open>createGroqLLM\<close>: the client is determined by the key that the rotator hands out. The
  attempt loop below calls it on a non-empty pool only, where the key is defined and
  \<open>new ChatGroq\<close> builds the client; the call in \<open>getResources\<close>, which an empty pool
  reaches, is modelled with its failure further down.
\<close>

definition createGroqLLM :: "string list \<Rightarrow> rotor \<Rightarrow> string option \<times> rotor" where
  "createGroqLLM keys r = getNextGroqApiKey keys r"

text \<open>
  The \<open>for\<close> loop over \<open>attempt\<close>. The result holds the response when the loop
  returned one, the value of \<open>lastError\<close>, the rotor and the calls made.
\<close>

function groq_attempts ::
  "string list \<Rightarrow> providers \<Rightarrow> string \<Rightarrow> nat \<Rightarrow> rotor \<Rightarrow> js_error option
     \<Rightarrow> response option \<times> js_error option \<times> rotor \<times> call list" where
  "groq_attempts keys P prompt attempt r lastError =
     (if attempt < length keys then
        (case createGroqLLM keys r of
           (apiKey, r1) \<Rightarrow>
             (case groq_invoke P attempt apiKey prompt of
                Inr response \<Rightarrow> (Some response, lastError, r1, [CallGroq apiKey (Inr response)])
              | Inl error \<Rightarrow>
                  (let r2 = markGroqKeyFailed apiKey r1 in
                   if is_rate_limited error then
                     (case groq_attempts keys P prompt (attempt + 1) r2 (Some error) of
                        (res, lastError', r3, calls) \<Rightarrow>
                          (res, lastError', r3,
                           CallGroq apiKey (Inl error) # MarkGroqKeyFailed apiKey # calls))
                   else (None, Some error, r2,
                         [CallGroq apiKey (Inl error), MarkGroqKeyFailed apiKey]))))
      else (None, lastError, r, []))"
  by pat_completeness auto
termination
  by (relation "measure (\<lambda>(keys, P, prompt, attempt, r, lastError). length keys - attempt)") auto

declare groq_attempts.simps [simp del]

text \<open>\<open>throw lastError || new Error("All LLM providers failed")\<close>\<close>

definition thrown_error :: "js_error option \<Rightarrow> js_error" where
  "thrown_error lastError =
     (case lastError of
        Some e \<Rightarrow> e
      | None \<Rightarrow> \<lparr>message = Some ''All LLM providers failed'', status = None\<rparr>)"

text \<open>
  The part of \<open>invokeLLMWithFallback\<close> after the first block: the Groq loop, the final
  fallback to OpenAI and the \<open>throw\<close>.
\<close>

definition invokeLLMWithFallback_groq ::
  "string list \<Rightarrow> providers \<Rightarrow> string \<Rightarrow> bool \<Rightarrow> rotor
     \<Rightarrow> (js_error + response) \<times> rotor \<times> call list" where
  "invokeLLMWithFallback_groq keys P prompt preferOpenAI r =
     (case groq_attempts keys P prompt 0 r None of
        (Some response, lastError, r1, calls) \<Rightarrow> (Inr response, r1, calls)
      | (None, lastError, r1, calls) \<Rightarrow>
          (if Boolean (OPENAI_API_KEY P) \<and> \<not> preferOpenAI then
             (case openai_invoke P prompt of
                Inr response \<Rightarrow> (Inr response, r1, calls @ [CallOpenAI (Inr response)])
              | Inl error \<Rightarrow>
                  (Inl (thrown_error lastError), r1, calls @ [CallOpenAI (Inl error)]))
           else (Inl (thrown_error lastError), r1, calls)))"

definition invokeLLMWithFallback ::
  "string list \<Rightarrow> providers \<Rightarrow> string \<Rightarrow> bool \<Rightarrow> rotor
     \<Rightarrow> (js_error + response) \<times> rotor \<times> call list" where
  "invokeLLMWithFallback keys P prompt preferOpenAI r =
     (if preferOpenAI \<and> Boolean (OPENAI_API_KEY P) then
        (case openai_invoke P prompt of
           Inr response \<Rightarrow> (Inr response, r, [CallOpenAI (Inr response)])
         | Inl error \<Rightarrow>
             (case invokeLLMWithFallback_groq keys P prompt preferOpenAI r of
                (res, r1, calls) \<Rightarrow> (res, r1, CallOpenAI (Inl error) # calls)))
      else invokeLLMWithFallback_groq keys P prompt preferOpenAI r)"

text \<open>Readings of the list of calls.\<close>

fun groq_results :: "call list \<Rightarrow> (js_error + response) list" where
  "groq_results [] = []"
| "groq_results (CallGroq k res # cs) = res # groq_results cs"
| "groq_results (c # cs) = groq_results cs"

fun groq_keys :: "call list \<Rightarrow> string option list" where
  "groq_keys [] = []"
| "groq_keys (CallGroq k res # cs) = k # groq_keys cs"
| "groq_keys (c # cs) = groq_keys cs"

fun outcomes :: "call list \<Rightarrow> (js_error + response) list" where
  "outcomes [] = []"
| "outcomes (CallGroq k res # cs) = res # outcomes cs"
| "outcomes (CallOpenAI res # cs) = res # outcomes cs"
| "outcomes (MarkGroqKeyFailed k # cs) = outcomes cs"

text \<open>
  Every failed Groq call is followed at once by \<open>markGroqKeyFailed\<close> on the key it used,
  and \<open>markGroqKeyFailed\<close> is called nowhere else.
\<close>

fun failures_reported :: "call list \<Rightarrow> bool" where
  "failures_reported [] = True"
| "failures_reported (CallGroq k (Inl e) # MarkGroqKeyFailed k' # cs) = (k = k' \<and> failures_reported cs)"
| "failures_reported (CallGroq k (Inl e) # cs) = False"
| "failures_reported (MarkGroqKeyFailed k # cs) = False"
| "failures_reported (c # cs) = failures_reported cs"

fun is_failure :: "js_error + response \<Rightarrow> bool" where
  "is_failure (Inl e) = True"
| "is_failure (Inr x) = False"

text \<open>The error of the last Groq call, when that call failed.\<close>

definition last_groq_error :: "call list \<Rightarrow> js_error option" where
  "last_groq_error calls =
     (case rev (groq_results calls) of Inl e # rest \<Rightarrow> Some e | _ \<Rightarrow> None)"

text \<open>
  Concrete providers. With \<open>providers_rate_limited\<close> no OpenAI key is configured and
  every Groq call is rejected with status 429. With \<open>providers_all_fail\<close> an OpenAI key
  is configured, every Groq call is rejected with status 400 and the OpenAI call is
  rejected with status 503.
\<close>

definition providers_rate_limited :: providers where
  "providers_rate_limited =
     \<lparr>OPENAI_API_KEY = None,
      openai_invoke = (\<lambda>prompt. Inl \<lparr>message = None, status = None\<rparr>),
      groq_invoke =
        (\<lambda>attempt key prompt. Inl \<lparr>message = Some ''rate limit reached'', status = Some 429\<rparr>)\<rparr>"

definition providers_all_fail :: providers where
  "providers_all_fail =
     \<lparr>OPENAI_API_KEY = Some ''sk-openai'',
      openai_invoke = (\<lambda>prompt. Inl \<lparr>message = Some ''service unavailable'', status = Some 503\<rparr>),
      groq_invoke =
        (\<lambda>attempt key prompt. Inl \<lparr>message = Some ''invalid request'', status = Some 400\<rparr>)\<rparr>"

section \<open>JavaScript values used by the pipeline\<close>

text \<open>
  A relevance score is a JavaScript number: a finite value (held exactly), an infinity
  or \<open>NaN\<close>. A comparison with \<open>NaN\<close> is false. The literals \<open>0.6\<close>, \<open>0.35\<close> and
  \<open>0.5\<close> denote the doubles nearest to them, whose exact values are used.
\<close>

datatype jsnum = Num real | PosInf | NegInf | NaN

fun js_ge :: "jsnum \<Rightarrow> real \<Rightarrow> bool" where
  "js_ge (Num x) b = (b \<le> x)"
| "js_ge PosInf b = True"
| "js_ge NegInf b = False"
| "js_ge NaN b = False"

fun js_lt :: "jsnum \<Rightarrow> real \<Rightarrow> bool" where
  "js_lt (Num x) b = (x < b)"
| "js_lt PosInf b = False"
| "js_lt NegInf b = True"
| "js_lt NaN b = False"

definition double_0_6 :: real where
  "double_0_6 = 5404319552844595 / 9007199254740992"

definition double_0_35 :: real where
  "double_0_35 = 3152519739159347 / 9007199254740992"

definition double_0_5 :: real where
  "double_0_5 = 1 / 2"

text \<open>
  \<open>a || b\<close> on optional strings: \<open>undefined\<close> and the empty string are falsy.
  \<open>or_str\<close> is the form whose last alternative is a string literal.
\<close>

definition js_or :: "string option \<Rightarrow> string option \<Rightarrow> string option" where
  "js_or a b = (if Boolean a then a else b)"

definition or_str :: "string option \<Rightarrow> string \<Rightarrow> string" where
  "or_str a d = (case a of None \<Rightarrow> d | Some s \<Rightarrow> if s = [] then d else s)"

text \<open>
  A character stands for one UTF-16 code unit below 256 (the range of ISO 8859-1); a
  string with a code unit above that range is outside the model. On this range
  \<open>toLowerCase\<close> maps \<open>A\<close> to \<open>Z\<close> and the letters at \<open>0xC0\<close> to \<open>0xDE\<close> (\<open>0xD7\<close>, the
  multiplication sign, apart) to the character 32 places further on; white space, for
  \<open>trim\<close> and for the class \<open>\s\<close>, is the space, tab, line feed, vertical tab, form feed,
  carriage return and the no-break space \<open>0xA0\<close>; the class \<open>\w\<close> is the ASCII letters,
  the digits and the underscore.
\<close>

definition lower_char :: "char \<Rightarrow> char" where
  "lower_char c =
     (case map_of
             (zip (''ABCDEFGHIJKLMNOPQRSTUVWXYZ''
                   @ [CHR 0xC0, CHR 0xC1, CHR 0xC2, CHR 0xC3, CHR 0xC4, CHR 0xC5, CHR 0xC6,
                      CHR 0xC7, CHR 0xC8, CHR 0xC9, CHR 0xCA, CHR 0xCB, CHR 0xCC, CHR 0xCD,
                      CHR 0xCE, CHR 0xCF, CHR 0xD0, CHR 0xD1, CHR 0xD2, CHR 0xD3, CHR 0xD4,
                      CHR 0xD5, CHR 0xD6, CHR 0xD8, CHR 0xD9, CHR 0xDA, CHR 0xDB, CHR 0xDC,
                      CHR 0xDD, CHR 0xDE])
                  (''abcdefghijklmnopqrstuvwxyz''
                   @ [CHR 0xE0, CHR 0xE1, CHR 0xE2, CHR 0xE3, CHR 0xE4, CHR 0xE5, CHR 0xE6,
                      CHR 0xE7, CHR 0xE8, CHR 0xE9, CHR 0xEA, CHR 0xEB, CHR 0xEC, CHR 0xED,
                      CHR 0xEE, CHR 0xEF, CHR 0xF0, CHR 0xF1, CHR 0xF2, CHR 0xF3, CHR 0xF4,
                      CHR 0xF5, CHR 0xF6, CHR 0xF8, CHR 0xF9, CHR 0xFA, CHR 0xFB, CHR 0xFC,
                      CHR 0xFD, CHR 0xFE])) c of
        None \<Rightarrow> c
      | Some l \<Rightarrow> l)"

definition toLowerCase :: "string \<Rightarrow> string" where
  "toLowerCase s = map lower_char s"

definition is_space :: "char \<Rightarrow> bool" where
  "is_space c =
     (c \<in> set [CHR '' '', CHR 0x09, CHR 0x0A, CHR 0x0B, CHR 0x0C, CHR 0x0D, CHR 0xA0])"

definition trim :: "string \<Rightarrow> string" where
  "trim s = rev (dropWhile is_space (rev (dropWhile is_space s)))"

definition is_word :: "char \<Rightarrow> bool" where
  "is_word c =
     (c \<in> set ''ABCDEFGHIJKLMNOPQRSTUVWXYZabcdefghijklmnopqrstuvwxyz0123456789_'')"

section \<open>Retrieved documents and citations\<close>

record metadata =
  md_case_title :: "string option"
  md_court :: "string option"
  md_source_url :: "string option"
  md_r2_url :: "string option"
  md_text_snippet :: "string option"
  md_source :: "string option"

record doc =
  page_content :: "string option"
  metadata :: metadata

record source =
  case_title :: string
  source_url :: string
  score :: jsnum

text \<open>
  \<open>new Map(entries)\<close> inserts the entries in order: a new key is appended, a key already
  present keeps its position and takes the new value. \<open>Map_values\<close> lists the values in
  insertion order.
\<close>

fun Map_set :: "(string \<times> 'v) list \<Rightarrow> string \<Rightarrow> 'v \<Rightarrow> (string \<times> 'v) list" where
  "Map_set [] k v = [(k, v)]"
| "Map_set ((k', v') # m) k v = (if k' = k then (k', v) # m else (k', v') # Map_set m k v)"

definition new_Map :: "(string \<times> 'v) list \<Rightarrow> (string \<times> 'v) list" where
  "new_Map entries = foldl (\<lambda>m (k, v). Map_set m k v) [] entries"

definition Map_values :: "(string \<times> 'v) list \<Rightarrow> 'v list" where
  "Map_values m = map snd m"

text \<open>\<open>[...new Map(items.map(item => [item.case_title, item])).values()]\<close>\<close>

definition dedupe_by_title :: "source list \<Rightarrow> source list" where
  "dedupe_by_title items = Map_values (new_Map (map (\<lambda>item. (case_title item, item)) items))"

subsection \<open>Chat pipeline: the strict filter and the citation list\<close>

definition validDocs :: "(doc \<times> jsnum) list \<Rightarrow> (doc \<times> jsnum) list" where
  "validDocs results = filter (\<lambda>(d, s). if js_ge s double_0_6 then True else False) results"

definition to_source :: "doc \<times> jsnum \<Rightarrow> source" where
  "to_source ds =
     (case ds of (d, s) \<Rightarrow>
        (let m = metadata d
         in \<lparr>case_title = or_str (md_case_title m) ''Unknown Case'',
             source_url = or_str (js_or (md_r2_url m) (md_source_url m)) ''#'',
             score = s\<rparr>))"

definition uniqueSources :: "(doc \<times> jsnum) list \<Rightarrow> source list" where
  "uniqueSources results =
     (if length (validDocs results) > 0
      then dedupe_by_title (map to_source (validDocs results))
      else [])"

subsection \<open>Summarisation: the recommendation filter\<close>

text \<open>\<open>score < 0.35 || score >= 0.5\<close>\<close>

definition summarize_keeps :: "jsnum \<Rightarrow> bool" where
  "summarize_keeps s = (js_lt s double_0_35 \<or> js_ge s double_0_5)"

definition summarize_source :: "doc \<times> jsnum \<Rightarrow> source" where
  "summarize_source ds =
     (case ds of (d, s) \<Rightarrow>
        (let m = metadata d
         in \<lparr>case_title = or_str (js_or (md_case_title m) (md_source m)) ''Unknown Case'',
             source_url =
               or_str (js_or (js_or (md_r2_url m) (md_source_url m)) (md_source m)) ''#'',
             score = s\<rparr>))"

definition summarize_sources :: "(doc \<times> jsnum) list \<Rightarrow> source list" where
  "summarize_sources similarDocs =
     dedupe_by_title (map summarize_source (filter (\<lambda>(d, s). summarize_keeps s) similarDocs))"

section \<open>The world of one request\<close>

text \<open>
  The conversation store, the usage store, the key rotor, the cache of the vector store
  (\<open>vectorStoreInstance\<close>, set once it has been built) and the response object form the
  \<open>world\<close>. \<open>trace\<close> lists, in the order they happen, the completed store writes, the
  calls on the response object and the calls to the similarity search and to the
  generation stream. Interleaving with other requests and with the rotor's timers is not
  modelled. A stored turn holds the citations as the pipeline returned them; what the
  store's schema keeps of each citation is not modelled.
\<close>

record history_item =
  role :: string
  content :: string

datatype message = SystemMessage string | HumanMessage string

datatype error_data = ErrorText string | ErrorMessage string

datatype event =
    SourcesEvent "source list"
  | ChunkEvent string
  | EndEvent
  | ErrorEvent error_data

record ai_message =
  ai_text :: string
  ai_sources :: "source list"

record turn =
  user :: "string option"
  ai :: "ai_message option"
  timestamp :: nat

record chat =
  chat_user :: string
  chatId :: string
  ispinned :: bool
  chatHistory :: "turn list"

record user_doc =
  uses :: nat

record json_body =
  json_message :: string
  json_success :: "bool option"

datatype action =
    Chats_create string string
  | User_save string nat
  | Chat_save string "turn list"
  | Res_status_json nat json_body
  | Res_setHeader string string
  | Res_flushHeaders
  | Res_write event
  | Res_end
  | SimilaritySearch string nat
  | LLM_stream "string option" "message list"

record world =
  chats :: "string \<rightharpoonup> chat"
  users :: "string \<rightharpoonup> user_doc"
  rotor :: rotor
  vectorStoreInstance :: bool
  headersSent :: bool
  trace :: "action list"

text \<open>
  What lies outside the program. Each store operation either completes or rejects (the
  awaited promise throws \<open>store_error\<close>). \<open>vector_store_init\<close> is the error thrown while
  the Pinecone client, the embeddings and the vector store are built, or \<open>None\<close> when
  they build; \<open>missing_key_error\<close> is the error \<open>new ChatGroq\<close> throws when it is given
  no key. \<open>similaritySearchWithScore\<close> is the outcome of
  the search for a query and a \<open>k\<close>; \<open>pdf_text\<close> is the text extracted from the PDF at a
  URL with whitespace runs collapsed and the ends trimmed, or \<open>None\<close> when the fetch or
  the extraction fails; \<open>llm_stream\<close> is the outcome of \<open>llm.stream(messages)\<close> on the
  client built with the given key: the call itself rejects, or the stream yields tokens
  and then ends or throws. \<open>now1\<close> and \<open>now2\<close> are the two readings of the clock.
\<close>

record env =
  findOne_rejects :: bool
  create_rejects :: bool
  findById_rejects :: bool
  user_save_rejects :: bool
  chat_save1_rejects :: bool
  chat_save2_rejects :: bool
  store_error :: js_error
  vector_store_init :: "js_error option"
  missing_key_error :: js_error
  similaritySearchWithScore :: "string \<Rightarrow> nat \<Rightarrow> js_error + (doc \<times> jsnum) list"
  pdf_text :: "string \<Rightarrow> string option"
  llm_stream :: "string option \<Rightarrow> message list \<Rightarrow> js_error + (string list \<times> js_error option)"
  now1 :: nat
  now2 :: nat

definition emit :: "action \<Rightarrow> world \<Rightarrow> world" where
  "emit a w = w\<lparr>trace := trace w @ [a]\<rparr>"

definition res_write :: "event \<Rightarrow> world \<Rightarrow> world" where
  "res_write e w = emit (Res_write e) w"

section \<open>The streaming pipeline (\<open>streamLegalAssistantResponse\<close>)\<close>

text \<open>
  \<open>new ChatGroq\<close> throws when it is given no key, which is what \<open>getNextGroqApiKey\<close>
  returns on an empty pool (then \<open>GROQ_API_KEY\<close> is not set either, so the client has no
  key to fall back on); with a key of the pool the client is built.
\<close>

definition new_ChatGroq :: "env \<Rightarrow> string option \<Rightarrow> js_error option" where
  "new_ChatGroq env apiKey = (case apiKey of None \<Rightarrow> Some (missing_key_error env) | Some k \<Rightarrow> None)"

text \<open>
  \<open>groq_client\<close> is the call \<open>createGroqLLM()\<close> in \<open>getResources\<close>: the key selection,
  then \<open>new ChatGroq\<close> with the selected key. It returns the key the client was built
  with, or throws.
\<close>

definition groq_client :: "string list \<Rightarrow> env \<Rightarrow> world \<Rightarrow> (js_error + string option) \<times> world" where
  "groq_client keys env w =
     (case createGroqLLM keys (rotor w) of
        (apiKey, r') \<Rightarrow>
          (case new_ChatGroq env apiKey of
             Some e \<Rightarrow> (Inl e, w\<lparr>rotor := r'\<rparr>)
           | None \<Rightarrow> (Inr apiKey, w\<lparr>rotor := r'\<rparr>)))"

text \<open>
  \<open>getResources\<close> builds the vector store on the first call that gets that far and keeps
  it in \<open>vectorStoreInstance\<close>, and builds a Groq client on every call.
\<close>

definition getResources :: "string list \<Rightarrow> env \<Rightarrow> world \<Rightarrow> (js_error + string option) \<times> world" where
  "getResources keys env w =
     (if vectorStoreInstance w then groq_client keys env w
      else (case vector_store_init env of
              Some e \<Rightarrow> (Inl e, w)
            | None \<Rightarrow> groq_client keys env (w\<lparr>vectorStoreInstance := True\<rparr>)))"

definition fetchPdfText :: "env \<Rightarrow> string option \<Rightarrow> nat \<Rightarrow> string option" where
  "fetchPdfText env pdfUrl maxChars =
     (case pdfUrl of
        None \<Rightarrow> None
      | Some url \<Rightarrow>
          if url = [] \<or> url = ''#'' then None
          else (case pdf_text env url of
                  None \<Rightarrow> None
                | Some txt \<Rightarrow>
                    if txt \<noteq> [] \<and> length txt > 100 then Some (take maxChars txt) else None))"

definition greetings :: "string list" where
  "greetings = [''hi'', ''hello'', ''hey'', ''greetings'', ''good morning'', ''good evening'',
                ''thanks'', ''thank you'']"

definition cleanInput :: "string \<Rightarrow> string" where
  "cleanInput userInput = filter (\<lambda>c. c \<notin> set ''?!.'') (trim (toLowerCase userInput))"

definition greeting_text :: string where
  "greeting_text = ''Hello! I am your legal assistant. How can I help you with Indian Commercial Law today?''"

definition cleanQuery :: "string \<Rightarrow> string" where
  "cleanQuery userInput = filter (\<lambda>c. is_word c \<or> is_space c) userInput"

text \<open>The documents with the text that goes into the prompt.\<close>

definition enrichedDoc :: "env \<Rightarrow> doc \<times> jsnum \<Rightarrow> doc \<times> jsnum \<times> string" where
  "enrichedDoc env ds =
     (case ds of (d, s) \<Rightarrow>
        (let m = metadata d;
             pdfUrl = js_or (md_source_url m) (md_r2_url m);
             snippet = or_str (js_or (page_content d) (md_text_snippet m)) [];
             fullText = (case fetchPdfText env pdfUrl 8000 of
                           None \<Rightarrow> snippet
                         | Some t \<Rightarrow> if t = [] then snippet else t)
         in (d, s, fullText)))"

definition remainingDoc :: "doc \<times> jsnum \<Rightarrow> doc \<times> jsnum \<times> string" where
  "remainingDoc ds =
     (case ds of (d, s) \<Rightarrow>
        (d, s, or_str (js_or (page_content d) (md_text_snippet (metadata d))) []))"

definition allDocs :: "env \<Rightarrow> (doc \<times> jsnum) list \<Rightarrow> (doc \<times> jsnum \<times> string) list" where
  "allDocs env valid = map (enrichedDoc env) (take 2 valid) @ map remainingDoc (drop 2 valid)"

fun join :: "string \<Rightarrow> string list \<Rightarrow> string" where
  "join sep [] = []"
| "join sep [x] = x"
| "join sep (x # y # ys) = x @ sep @ join sep (y # ys)"

definition nl :: string where
  "nl = [CHR 0x0A]"

definition case_block :: "doc \<times> jsnum \<times> string \<Rightarrow> string" where
  "case_block dsf =
     (case dsf of (d, s, fullText) \<Rightarrow>
        (let m = metadata d;
             caseTitle = or_str (md_case_title m) ''Unknown Case''
         in ''CASE: '' @ caseTitle @ nl @ ''COURT: '' @ or_str (md_court m) ''Unknown'' @ nl @ nl
            @ fullText))"

definition contextText :: "env \<Rightarrow> (doc \<times> jsnum) list \<Rightarrow> string" where
  "contextText env results =
     (if length (validDocs results) > 0
      then join (nl @ nl @ ''---'' @ nl @ nl) (map case_block (allDocs env (validDocs results)))
      else ''NO SPECIFIC CASE FILES FOUND.'')"

definition systemPrompt :: "string \<Rightarrow> string" where
  "systemPrompt ctx =
     ''You are an expert Indian Legal Advisor.'' @ nl @ nl
     @ ''RELEVANT CASES FROM DATABASE:'' @ nl
     @ ctx @ nl @ nl
     @ ''INSTRUCTIONS:'' @ nl
     @ ''1. The above contains excerpts from relevant legal cases found in our database.'' @ nl
     @ ''2. Use this information to answer the user'' @ [CHR 0x27]
     @ ''s question. Cite the case names provided.'' @ nl
     @ ''3. If the excerpts are brief, supplement with your knowledge of the case if you recognize it, but prioritize the provided information.'' @ nl
     @ ''4. If '' @ [CHR 0x22] @ ''NO SPECIFIC CASE FILES FOUND'' @ [CHR 0x22]
     @ '' appears above, use your general knowledge of Indian Law.'' @ nl
     @ ''5. Be helpful and thorough in your response.'' @ nl
     @ ''6. Dont say words like using common knowledge etc or i am an ai language model. Just answer the question directly.'' @ nl"

definition history_message :: "history_item \<Rightarrow> message" where
  "history_message m = (if role m = ''user'' then HumanMessage (content m) else SystemMessage (content m))"

definition messages :: "env \<Rightarrow> (doc \<times> jsnum) list \<Rightarrow> history_item list \<Rightarrow> string \<Rightarrow> message list" where
  "messages env results history userInput =
     SystemMessage (systemPrompt (contextText env results))
     # map history_message history @ [HumanMessage userInput]"

text \<open>The \<open>for await\<close> loop over the tokens the stream yields.\<close>

fun stream_chunks :: "string list \<Rightarrow> string \<Rightarrow> world \<Rightarrow> string \<times> world" where
  "stream_chunks [] fullAnswer w = (fullAnswer, w)"
| "stream_chunks (token # rest) fullAnswer w =
     stream_chunks rest (fullAnswer @ token) (res_write (ChunkEvent token) w)"

text \<open>The \<open>catch\<close> of the pipeline: write the error event and throw the error again.\<close>

definition stream_catch :: "js_error \<Rightarrow> world \<Rightarrow> (js_error + string \<times> source list) \<times> world" where
  "stream_catch e w = (Inl e, res_write (ErrorEvent (ErrorText ''Internal Server Error'')) w)"

definition streamLegalAssistantResponse ::
  "string list \<Rightarrow> env \<Rightarrow> string \<Rightarrow> history_item list \<Rightarrow> world
     \<Rightarrow> (js_error + string \<times> source list) \<times> world" where
  "streamLegalAssistantResponse keys env userInput history w0 =
     (case getResources keys env w0 of
        (Inl e, w1) \<Rightarrow> stream_catch e w1
      | (Inr apiKey, w1) \<Rightarrow>
          if cleanInput userInput \<in> set greetings \<or> length (cleanInput userInput) < 3 then
            (Inr (''Greeting'', []),
             res_write EndEvent
               (res_write (ChunkEvent greeting_text) (res_write (SourcesEvent []) w1)))
          else
            (let w2 = emit (SimilaritySearch (cleanQuery userInput) 4) w1
             in case similaritySearchWithScore env (cleanQuery userInput) 4 of
                  Inl e \<Rightarrow> stream_catch e w2
                | Inr results \<Rightarrow>
                    (let w3 = res_write (SourcesEvent (uniqueSources results)) w2;
                         msgs = messages env results history userInput;
                         w4 = emit (LLM_stream apiKey msgs) w3
                     in case llm_stream env apiKey msgs of
                          Inl e \<Rightarrow> stream_catch e w4
                        | Inr (tokens, failure) \<Rightarrow>
                            (case stream_chunks tokens [] w4 of
                               (fullAnswer, w5) \<Rightarrow>
                                 (case failure of
                                    Some e \<Rightarrow> stream_catch e w5
                                  | None \<Rightarrow>
                                      (Inr (fullAnswer, uniqueSources results),
                                       res_write EndEvent w5))))))"

section \<open>The chat controller (\<open>updateChat\<close>)\<close>

record request =
  param_chatId :: string
  body_userMessage :: "string option"
  req_user :: string

text \<open>Store operations: the result, or the rejection, and the world after.\<close>

definition Chats_findOne :: "env \<Rightarrow> string \<Rightarrow> world \<Rightarrow> (js_error + chat option) \<times> world" where
  "Chats_findOne env cid w =
     (if findOne_rejects env then (Inl (store_error env), w) else (Inr (chats w cid), w))"

definition Chats_create_op :: "env \<Rightarrow> string \<Rightarrow> string \<Rightarrow> world \<Rightarrow> (js_error + chat) \<times> world" where
  "Chats_create_op env cid uid w =
     (if create_rejects env then (Inl (store_error env), w)
      else (let c = \<lparr>chat_user = uid, chatId = cid, ispinned = False, chatHistory = []\<rparr>
            in (Inr c, emit (Chats_create cid uid) (w\<lparr>chats := (chats w)(cid \<mapsto> c)\<rparr>))))"

definition User_findById :: "env \<Rightarrow> string \<Rightarrow> world \<Rightarrow> (js_error + user_doc option) \<times> world" where
  "User_findById env uid w =
     (if findById_rejects env then (Inl (store_error env), w) else (Inr (users w uid), w))"

definition user_save :: "env \<Rightarrow> string \<Rightarrow> user_doc \<Rightarrow> world \<Rightarrow> (js_error + unit) \<times> world" where
  "user_save env uid u w =
     (if user_save_rejects env then (Inl (store_error env), w)
      else (Inr (), emit (User_save uid (uses u)) (w\<lparr>users := (users w)(uid \<mapsto> u)\<rparr>)))"

text \<open>\<open>chat.save()\<close> writes the document back to the slot it was found or created in.\<close>

definition chat_save :: "bool \<Rightarrow> env \<Rightarrow> string \<Rightarrow> chat \<Rightarrow> world \<Rightarrow> (js_error + unit) \<times> world" where
  "chat_save rejects env cid c w =
     (if rejects then (Inl (store_error env), w)
      else (Inr (), emit (Chat_save cid (chatHistory c)) (w\<lparr>chats := (chats w)(cid \<mapsto> c)\<rparr>)))"

text \<open>\<open>res.status(code).json(body)\<close> sends the response, headers included.\<close>

definition respond_json :: "nat \<Rightarrow> json_body \<Rightarrow> world \<Rightarrow> world" where
  "respond_json code body w = (emit (Res_status_json code body) w)\<lparr>headersSent := True\<rparr>"

text \<open>Reading \<open>user.uses\<close> of \<open>null\<close> throws a \<open>TypeError\<close>.\<close>

definition type_error :: js_error where
  "type_error = \<lparr>message = Some ''TypeError: Cannot read properties of null'', status = None\<rparr>"

text \<open>
  The pre-SSE validation after the check of the message: find or create the chat, check
  its owner, load the user, check the quota. \<open>Responded\<close> is an early \<open>return\<close> with the
  response sent.
\<close>

datatype validation = Responded | Accepted chat user_doc

definition pre_sse_validation :: "env \<Rightarrow> request \<Rightarrow> world \<Rightarrow> (js_error + validation) \<times> world" where
  "pre_sse_validation env req w =
     (case Chats_findOne env (param_chatId req) w of
        (Inl e, w1) \<Rightarrow> (Inl e, w1)
      | (Inr found, w1) \<Rightarrow>
          (case (case found of
                   Some c \<Rightarrow> (Inr c, w1)
                 | None \<Rightarrow> Chats_create_op env (param_chatId req) (req_user req) w1) of
             (Inl e, w2) \<Rightarrow> (Inl e, w2)
           | (Inr c, w2) \<Rightarrow>
               if req_user req \<noteq> chat_user c then
                 (Inr Responded,
                  respond_json 401 \<lparr>json_message = ''Unauthorized'', json_success = None\<rparr> w2)
               else
                 (case User_findById env (req_user req) w2 of
                    (Inl e, w3) \<Rightarrow> (Inl e, w3)
                  | (Inr None, w3) \<Rightarrow> (Inl type_error, w3)
                  | (Inr (Some u), w3) \<Rightarrow>
                      if uses u \<ge> 10 then
                        (Inr Responded,
                         respond_json 403
                           \<lparr>json_message = ''User has exceeded the maximum number of uses'',
                            json_success = Some False\<rparr> w3)
                      else (Inr (Accepted c u), w3))))"

text \<open>\<open>res.setHeader\<close> three times and \<open>res.flushHeaders()\<close>.\<close>

definition setup_sse :: "world \<Rightarrow> world" where
  "setup_sse w =
     (emit Res_flushHeaders
        (emit (Res_setHeader ''Connection'' ''keep-alive'')
           (emit (Res_setHeader ''Cache-Control'' ''no-cache'')
              (emit (Res_setHeader ''Content-Type'' ''text/event-stream'') w))))
     \<lparr>headersSent := True\<rparr>"

definition formattedHistory :: "turn list \<Rightarrow> history_item list" where
  "formattedHistory h =
     concat (map (\<lambda>msg.
                (case user msg of
                   None \<Rightarrow> []
                 | Some u \<Rightarrow> if u = [] then [] else [\<lparr>role = ''user'', content = u\<rparr>])
                @ (case ai msg of
                     None \<Rightarrow> []
                   | Some a \<Rightarrow>
                       if ai_text a = [] then []
                       else [\<lparr>role = ''assistant'', content = ai_text a\<rparr>]))
             (butlast h))"

text \<open>
  The rest of the \<open>try\<close> block, once validation has accepted the request: open the event
  stream, count the use, store the user turn, run the pipeline, store the assistant turn,
  end the response.
\<close>

definition sse_exchange ::
  "string list \<Rightarrow> env \<Rightarrow> request \<Rightarrow> string \<Rightarrow> chat \<Rightarrow> user_doc \<Rightarrow> world
     \<Rightarrow> (js_error + unit) \<times> world" where
  "sse_exchange keys env req userMessage c u w =
     (let w1 = setup_sse w;
          u' = u\<lparr>uses := uses u + 1\<rparr>
      in case user_save env (req_user req) u' w1 of
           (Inl e, w2) \<Rightarrow> (Inl e, w2)
         | (Inr _, w2) \<Rightarrow>
             (let userMsg = \<lparr>user = Some userMessage, ai = None, timestamp = now1 env\<rparr>;
                  c1 = c\<lparr>chatHistory := chatHistory c @ [userMsg]\<rparr>
              in case chat_save (chat_save1_rejects env) env (param_chatId req) c1 w2 of
                   (Inl e, w3) \<Rightarrow> (Inl e, w3)
                 | (Inr _, w3) \<Rightarrow>
                     (case streamLegalAssistantResponse keys env userMessage
                             (formattedHistory (chatHistory c1)) w3 of
                        (Inl e, w4) \<Rightarrow> (Inl e, w4)
                      | (Inr (answer, srcs), w4) \<Rightarrow>
                          (let newMessage =
                                 \<lparr>user = None,
                                  ai = Some \<lparr>ai_text = answer, ai_sources = srcs\<rparr>,
                                  timestamp = now2 env\<rparr>;
                               c2 = c1\<lparr>chatHistory := chatHistory c1 @ [newMessage]\<rparr>
                           in case chat_save (chat_save2_rejects env) env (param_chatId req) c2 w4 of
                                (Inl e, w5) \<Rightarrow> (Inl e, w5)
                              | (Inr _, w5) \<Rightarrow> (Inr (), emit Res_end w5)))))"

text \<open>The \<open>try\<close> block of \<open>updateChat\<close>.\<close>

definition updateChat_try ::
  "string list \<Rightarrow> env \<Rightarrow> request \<Rightarrow> world \<Rightarrow> (js_error + unit) \<times> world" where
  "updateChat_try keys env req w =
     (case (case body_userMessage req of
              None \<Rightarrow> None
            | Some m \<Rightarrow> if m = [] then None else Some m) of
        None \<Rightarrow>
          (Inr (), respond_json 400
                     \<lparr>json_message = ''User message is required'', json_success = None\<rparr> w)
      | Some userMessage \<Rightarrow>
          (case pre_sse_validation env req w of
             (Inl e, w1) \<Rightarrow> (Inl e, w1)
           | (Inr Responded, w1) \<Rightarrow> (Inr (), w1)
           | (Inr (Accepted c u), w1) \<Rightarrow> sse_exchange keys env req userMessage c u w1))"

text \<open>
  \<open>updateChat\<close>: the \<open>try\<close> block on a new response object, and the \<open>catch\<close>.
\<close>

definition new_response :: "world \<Rightarrow> world" where
  "new_response w = w\<lparr>headersSent := False, trace := []\<rparr>"

definition updateChat :: "string list \<Rightarrow> env \<Rightarrow> request \<Rightarrow> world \<Rightarrow> world" where
  "updateChat keys env req w =
     (case updateChat_try keys env req (new_response w) of
        (Inr _, w') \<Rightarrow> w'
      | (Inl e, w') \<Rightarrow>
          if \<not> headersSent w' then
            respond_json 500 \<lparr>json_message = ''Internal Server Error'', json_success = None\<rparr> w'
          else emit Res_end (res_write (ErrorEvent (ErrorMessage ''An error occurred.'')) w'))"

section \<open>Readings of the trace and concrete inputs\<close>

fun events_of :: "action list \<Rightarrow> event list" where
  "events_of [] = []"
| "events_of (Res_write e # as) = e # events_of as"
| "events_of (a # as) = events_of as"

text \<open>Two retrieved documents that carry the same case title.\<close>

definition doc_first :: doc where
  "doc_first =
     \<lparr>page_content = Some ''first excerpt'',
      metadata = \<lparr>md_case_title = Some ''A v B'', md_court = Some ''Supreme Court'',
                  md_source_url = None, md_r2_url = Some ''u1'', md_text_snippet = None,
                  md_source = None\<rparr>\<rparr>"

definition doc_second :: doc where
  "doc_second =
     \<lparr>page_content = Some ''second excerpt'',
      metadata = \<lparr>md_case_title = Some ''A v B'', md_court = Some ''High Court'',
                  md_source_url = None, md_r2_url = Some ''u2'', md_text_snippet = None,
                  md_source = None\<rparr>\<rparr>"

definition doc_weak :: doc where
  "doc_weak =
     \<lparr>page_content = Some ''unrelated excerpt'',
      metadata = \<lparr>md_case_title = Some ''C v D'', md_court = None,
                  md_source_url = None, md_r2_url = None, md_text_snippet = None,
                  md_source = None\<rparr>\<rparr>"

definition demo_results :: "(doc \<times> jsnum) list" where
  "demo_results = [(doc_first, Num (9 / 10)), (doc_second, Num (7 / 10)), (doc_weak, Num (1 / 10))]"

definition demo_error :: js_error where
  "demo_error = \<lparr>message = Some ''socket hang up'', status = None\<rparr>"

text \<open>
  An environment in which the store completes every operation, the vector store builds,
  the search returns
  \<open>demo_results\<close> and the generation stream yields two tokens and ends.
\<close>

definition demo_env :: env where
  "demo_env =
     \<lparr>findOne_rejects = False, create_rejects = False, findById_rejects = False,
      user_save_rejects = False, chat_save1_rejects = False, chat_save2_rejects = False,
      store_error = demo_error,
      vector_store_init = None, missing_key_error = demo_error,
      similaritySearchWithScore = (\<lambda>q k. Inr demo_results),
      pdf_text = (\<lambda>url. None),
      llm_stream = (\<lambda>key msgs. Inr ([''Section 302 '', ''punishes murder.''], None)),
      now1 = 1000, now2 = 1001\<rparr>"

text \<open>The same environment, with a generation stream that throws after its first token.\<close>

definition demo_env_stream_fails :: env where
  "demo_env_stream_fails =
     demo_env\<lparr>llm_stream := (\<lambda>key msgs. Inr ([''Section 302 ''], Some demo_error))\<rparr>"

definition demo_world :: world where
  "demo_world =
     \<lparr>chats = Map.empty, users = [''u1'' \<mapsto> \<lparr>uses = 9\<rparr>, ''u2'' \<mapsto> \<lparr>uses = 10\<rparr>],
      rotor = rotor_init, vectorStoreInstance = False, headersSent = False, trace = []\<rparr>"

text \<open>A greeting in capitals, with a no-break space and a space in front and a space behind.\<close>

definition demo_greeting :: string where
  "demo_greeting = CHR 0xA0 # '' Hello! ''"

definition demo_request :: "string \<Rightarrow> string \<Rightarrow> request" where
  "demo_request uid msg = \<lparr>param_chatId = ''c1'', body_userMessage = Some msg, req_user = uid\<rparr>"

section \<open>Vocabulary for the properties of one request\<close>

text \<open>
  The clients of the pipeline can be built: the key pool is not empty, and the vector
  store is cached or builds.
\<close>

definition resources_build :: "string list \<Rightarrow> env \<Rightarrow> world \<Rightarrow> bool" where
  "resources_build keys env w =
     (keys \<noteq> [] \<and> (vectorStoreInstance w \<or> vector_store_init env = None))"

text \<open>
  A request is valid when it carries a message, the store answers the look-ups, and the
  chat it names is absent (and can be created) or belongs to the requesting user. It
  passes validation when, in addition, the user exists with fewer than ten uses.
\<close>

definition request_valid :: "env \<Rightarrow> request \<Rightarrow> world \<Rightarrow> bool" where
  "request_valid env req w =
     (Boolean (body_userMessage req) \<and> \<not> findOne_rejects env \<and>
      (case chats w (param_chatId req) of
         None \<Rightarrow> \<not> create_rejects env
       | Some c \<Rightarrow> chat_user c = req_user req) \<and>
      \<not> findById_rejects env)"

definition passes_validation :: "env \<Rightarrow> request \<Rightarrow> world \<Rightarrow> bool" where
  "passes_validation env req w =
     (request_valid env req w \<and>
      (case users w (req_user req) of None \<Rightarrow> False | Some u \<Rightarrow> uses u < 10))"

text \<open>The chat the request works on, and the turns it holds when the request arrives.\<close>

definition new_chat :: "request \<Rightarrow> chat" where
  "new_chat req =
     \<lparr>chat_user = req_user req, chatId = param_chatId req, ispinned = False, chatHistory = []\<rparr>"

definition found_or_created :: "request \<Rightarrow> world \<Rightarrow> chat" where
  "found_or_created req w =
     (case chats w (param_chatId req) of None \<Rightarrow> new_chat req | Some c \<Rightarrow> c)"

definition creation :: "request \<Rightarrow> world \<Rightarrow> action list" where
  "creation req w =
     (case chats w (param_chatId req) of
        None \<Rightarrow> [Chats_create (param_chatId req) (req_user req)]
      | Some c \<Rightarrow> [])"

definition sse_headers :: "action list" where
  "sse_headers =
     [Res_setHeader ''Content-Type'' ''text/event-stream'',
      Res_setHeader ''Cache-Control'' ''no-cache'',
      Res_setHeader ''Connection'' ''keep-alive'',
      Res_flushHeaders]"

definition user_turn :: "env \<Rightarrow> string \<Rightarrow> turn" where
  "user_turn env m = \<lparr>user = Some m, ai = None, timestamp = now1 env\<rparr>"

definition assistant_turn :: "env \<Rightarrow> string \<Rightarrow> source list \<Rightarrow> turn" where
  "assistant_turn env answer srcs =
     \<lparr>user = None, ai = Some \<lparr>ai_text = answer, ai_sources = srcs\<rparr>, timestamp = now2 env\<rparr>"

text \<open>Kinds of actions.\<close>

fun is_retrieval_or_generation :: "action \<Rightarrow> bool" where
  "is_retrieval_or_generation (SimilaritySearch q k) = True"
| "is_retrieval_or_generation (LLM_stream key msgs) = True"
| "is_retrieval_or_generation a = False"

fun is_streaming_action :: "action \<Rightarrow> bool" where
  "is_streaming_action (Res_setHeader h v) = True"
| "is_streaming_action Res_flushHeaders = True"
| "is_streaming_action (Res_write e) = True"
| "is_streaming_action Res_end = True"
| "is_streaming_action a = False"

fun saves_assistant_turn :: "action \<Rightarrow> bool" where
  "saves_assistant_turn (Chat_save cid h) = (h \<noteq> [] \<and> ai (last h) \<noteq> None)"
| "saves_assistant_turn a = False"

fun is_User_save :: "action \<Rightarrow> bool" where
  "is_User_save (User_save uid n) = True"
| "is_User_save a = False"

fun is_pipeline_action :: "action \<Rightarrow> bool" where
  "is_pipeline_action (SimilaritySearch q k) = True"
| "is_pipeline_action (LLM_stream key msgs) = True"
| "is_pipeline_action (Res_write e) = True"
| "is_pipeline_action a = False"

definition quota_body :: json_body where
  "quota_body =
     \<lparr>json_message = ''User has exceeded the maximum number of uses'', json_success = Some False\<rparr>"

section \<open>Properties of the credential rotator\<close>

lemma getNextGroqApiKey_loop_Some:
  "getNextGroqApiKey_loop keys r i = Some (key, r') \<Longrightarrow>
     key \<in> set keys \<and> failures_of r key < 3 \<and> keyFailureCounts r' = keyFailureCounts r"
proof (induction keys r i rule: getNextGroqApiKey_loop.induct)
  case (1 keys r i)
  show ?case
  proof (cases "i < length keys")
    case False
    with "1.prems" show ?thesis by simp
  next
    case True
    let ?index = "(currentGroqKeyIndex r + i) mod length keys"
    from True have "0 < length keys" by linarith
    then have idx: "?index < length keys" by simp
    show ?thesis
    proof (cases "failures_of r (keys ! ?index) < 3")
      case healthy: True
      with True "1.prems" have "key = keys ! ?index"
        and "r' = r\<lparr>currentGroqKeyIndex := (?index + 1) mod length keys\<rparr>"
        by (simp_all add: Let_def)
      with healthy idx show ?thesis by simp
    next
      case failed: False
      with True "1.prems" have "getNextGroqApiKey_loop keys r (i + 1) = Some (key, r')"
        by (simp add: Let_def)
      with "1.IH" True failed show ?thesis by simp
    qed
  qed
qed

lemma getNextGroqApiKey_loop_None:
  "getNextGroqApiKey_loop keys r i = None \<Longrightarrow> i \<le> j \<Longrightarrow> j < length keys \<Longrightarrow>
     3 \<le> failures_of r (keys ! ((currentGroqKeyIndex r + j) mod length keys))"
proof (induction keys r i rule: getNextGroqApiKey_loop.induct)
  case (1 keys r i)
  let ?index = "(currentGroqKeyIndex r + i) mod length keys"
  from "1.prems" have lt: "i < length keys" by simp
  have failed: "\<not> failures_of r (keys ! ?index) < 3"
  proof
    assume "failures_of r (keys ! ?index) < 3"
    with lt "1.prems"(1) show False by (simp add: Let_def)
  qed
  with lt "1.prems"(1) have rest: "getNextGroqApiKey_loop keys r (i + 1) = None"
    by (simp add: Let_def)
  show ?case
  proof (cases "j = i")
    case True
    with failed show ?thesis by simp
  next
    case False
    with "1.prems" have "i + 1 \<le> j" by simp
    with "1.IH" lt failed rest "1.prems"(3) show ?thesis by simp
  qed
qed

lemma cyclic_index_covers:
  assumes "n < length keys"
  shows "\<exists>j < length keys. (c + j) mod length keys = n"
proof -
  let ?L = "length keys"
  let ?j = "(n + (?L - c mod ?L)) mod ?L"
  have L: "0 < ?L" using assms by linarith
  have "?j < ?L" using L by simp
  moreover have "(c + ?j) mod ?L = n"
  proof -
    have "(c + ?j) mod ?L = (c mod ?L + (n + (?L - c mod ?L))) mod ?L"
      by (metis mod_add_eq mod_mod_trivial)
    also have "c mod ?L + (n + (?L - c mod ?L)) = n + ?L"
    proof -
      have "c mod ?L < ?L" using L by simp
      then show ?thesis by linarith
    qed
    also have "(n + ?L) mod ?L = n" using assms by simp
    finally show ?thesis .
  qed
  ultimately show ?thesis by blast
qed

lemma getNextGroqApiKey_loop_None_all:
  assumes "getNextGroqApiKey_loop keys r 0 = None" and "k \<in> set keys"
  shows "3 \<le> failures_of r k"
proof -
  from assms(2) obtain n where n: "n < length keys" "keys ! n = k"
    by (auto simp: in_set_conv_nth)
  from cyclic_index_covers [OF n(1)] obtain j
    where j: "j < length keys" "(currentGroqKeyIndex r + j) mod length keys = n" by blast
  from getNextGroqApiKey_loop_None [OF assms(1) _ j(1)] j(2) n(2) show ?thesis by simp
qed

text \<open>
  C6. For a pool of at least one credential, \<open>getNextGroqApiKey\<close> returns a credential
  of the pool. While some credential of the pool has fewer than three recorded failures,
  the returned credential has fewer than three and the failure counts are left as they
  were. When every credential of the pool has three or more, all failure counts are
  cleared, the pointer goes back to zero and the first credential of the pool is returned.
\<close>

theorem getNextGroqApiKey_skips_failed_keys:
  assumes "keys \<noteq> []" and "getNextGroqApiKey keys r = (k, r')"
  shows "\<exists>key. k = Some key \<and> key \<in> set keys \<and>
           (if \<exists>x \<in> set keys. failures_of r x < 3
            then failures_of r key < 3 \<and> keyFailureCounts r' = keyFailureCounts r
            else key = hd keys \<and> keyFailureCounts r' = Map.empty \<and>
                 currentGroqKeyIndex r' = 0 \<and> failures_of r' key = 0)"
proof (cases "getNextGroqApiKey_loop keys r 0")
  case None
  then have all_failed: "\<forall>x \<in> set keys. 3 \<le> failures_of r x"
    using getNextGroqApiKey_loop_None_all by blast
  then have no_healthy: "\<not> (\<exists>x \<in> set keys. failures_of r x < 3)" by fastforce
  from assms(1) obtain k0 ks where keys: "keys = k0 # ks" by (cases keys) auto
  from None assms(2) keys have "k = Some k0"
    and "r' = r\<lparr>keyFailureCounts := Map.empty, currentGroqKeyIndex := 0\<rparr>"
    by (simp_all add: getNextGroqApiKey_def)
  with keys no_healthy show ?thesis by (simp add: failures_of_def)
next
  case (Some p)
  obtain key r1 where p: "p = (key, r1)" by (cases p)
  from Some p assms(2) have res: "k = Some key" "r' = r1"
    by (simp_all add: getNextGroqApiKey_def)
  from Some p have "key \<in> set keys \<and> failures_of r key < 3 \<and> keyFailureCounts r1 = keyFailureCounts r"
    using getNextGroqApiKey_loop_Some by blast
  with res show ?thesis by auto
qed

theorem getNextGroqApiKey_skips_failed_keys_witness:
  "getNextGroqApiKey [''k1'', ''k2'']
     \<lparr>currentGroqKeyIndex = 0, keyFailureCounts = [''k1'' \<mapsto> 3]\<rparr>
   = (Some ''k2'', \<lparr>currentGroqKeyIndex = 0, keyFailureCounts = [''k1'' \<mapsto> 3]\<rparr>)
   \<and> failures_of \<lparr>currentGroqKeyIndex = 0, keyFailureCounts = [''k1'' \<mapsto> 3]\<rparr> ''k2'' < 3"
proof -
  let ?r = "\<lparr>currentGroqKeyIndex = 0, keyFailureCounts = [''k1'' \<mapsto> (3::nat)]\<rparr>"
  have run: "getNextGroqApiKey [''k1'', ''k2''] ?r = (Some ''k2'', ?r)"
    by (simp add: getNextGroqApiKey_def failures_of_def Let_def)
  have ne: "[''k1'', ''k2''] \<noteq> []" by simp
  have healthy: "\<exists>x \<in> set [''k1'', ''k2'']. failures_of ?r x < 3"
    by (simp add: failures_of_def)
  from getNextGroqApiKey_skips_failed_keys [OF ne run] healthy
  have "failures_of ?r ''k2'' < 3" by auto
  with run show ?thesis by simp
qed


section \<open>Properties of the provider failover\<close>

lemma groq_attempts_shape:
  "groq_attempts keys P prompt attempt r le = (res, le', r', calls) \<Longrightarrow>
   outcomes calls = groq_results calls \<and>
   (\<exists>es fin. groq_results calls = map Inl es @ fin \<and> list_all is_rate_limited es \<and>
      length es + length fin \<le> length keys - attempt \<and>
      ((fin = [] \<and> res = None \<and> le' = (if es = [] then le else Some (last es)) \<and>
          length es = length keys - attempt)
       \<or> (\<exists>x. fin = [Inr x] \<and> res = Some x)
       \<or> (\<exists>e. fin = [Inl e] \<and> \<not> is_rate_limited e \<and> res = None \<and> le' = Some e)))"
proof (induction keys P prompt attempt r le arbitrary: res le' r' calls rule: groq_attempts.induct)
  case (1 keys P prompt attempt r lastError)
  show ?case
  proof (cases "attempt < length keys")
    case False
    with "1.prems" have "calls = []" "res = None" "le' = lastError"
      by (simp_all add: groq_attempts.simps [of keys P prompt attempt])
    with False show ?thesis by simp
  next
    case True
    obtain apiKey r1 where sel: "createGroqLLM keys r = (apiKey, r1)" by (cases "createGroqLLM keys r")
    show ?thesis
    proof (cases "groq_invoke P attempt apiKey prompt")
      case (Inr response)
      with True sel "1.prems" have "calls = [CallGroq apiKey (Inr response)]" "res = Some response"
        by (simp_all add: groq_attempts.simps [of keys P prompt attempt])
      with True show ?thesis
        by - (rule conjI, simp, rule exI[of _ "[]"], rule exI[of _ "[Inr response]"], simp)
    next
      case (Inl error)
      let ?r2 = "markGroqKeyFailed apiKey r1"
      show ?thesis
      proof (cases "is_rate_limited error")
        case False
        with True sel Inl "1.prems" have c: "calls = [CallGroq apiKey (Inl error), MarkGroqKeyFailed apiKey]"
          "res = None" "le' = Some error"
          by (simp_all add: groq_attempts.simps [of keys P prompt attempt] Let_def)
        with True False show ?thesis
          by - (rule conjI, simp, rule exI[of _ "[]"], rule exI[of _ "[Inl error]"], simp)
      next
        case rate: True
        obtain res2 le2 r3 calls2 where rec:
          "groq_attempts keys P prompt (attempt + 1) ?r2 (Some error) = (res2, le2, r3, calls2)"
          by (metis prod_cases4)
        with True sel Inl rate "1.prems" have c:
          "calls = CallGroq apiKey (Inl error) # MarkGroqKeyFailed apiKey # calls2"
          "res = res2" "le' = le2"
          by (simp_all add: groq_attempts.simps [of keys P prompt attempt] Let_def)
        from "1.IH" [OF True sel [symmetric] Inl refl rate rec]
        obtain es fin where ih: "outcomes calls2 = groq_results calls2"
          "groq_results calls2 = map Inl es @ fin" "list_all is_rate_limited es"
          "length es + length fin \<le> length keys - (attempt + 1)"
          "(fin = [] \<and> res2 = None \<and> le2 = (if es = [] then Some error else Some (last es)) \<and>
              length es = length keys - (attempt + 1))
           \<or> (\<exists>x. fin = [Inr x] \<and> res2 = Some x)
           \<or> (\<exists>e. fin = [Inl e] \<and> \<not> is_rate_limited e \<and> res2 = None \<and> le2 = Some e)"
          by blast
        have g: "groq_results calls = map Inl (error # es) @ fin" using c ih(2) by simp
        have o: "outcomes calls = groq_results calls" using c ih(1) by simp
        have a: "list_all is_rate_limited (error # es)" using rate ih(3) by simp
        have l: "length (error # es) + length fin \<le> length keys - attempt" using ih(4) True by simp
        have d: "(fin = [] \<and> res = None \<and> le' = (if error # es = [] then lastError else Some (last (error # es))) \<and>
              length (error # es) = length keys - attempt)
           \<or> (\<exists>x. fin = [Inr x] \<and> res = Some x)
           \<or> (\<exists>e. fin = [Inl e] \<and> \<not> is_rate_limited e \<and> res = None \<and> le' = Some e)"
          using ih(5) c(2,3) True by auto
        from o g a l d show ?thesis by blast
      qed
    qed
  qed
qed

lemma groq_attempts_reported:
  "groq_attempts keys P prompt attempt r le = (res, le', r', calls) \<Longrightarrow>
   failures_reported (calls @ rest) = failures_reported rest"
proof (induction keys P prompt attempt r le arbitrary: res le' r' calls rule: groq_attempts.induct)
  case (1 keys P prompt attempt r lastError)
  show ?case
  proof (cases "attempt < length keys")
    case False
    with "1.prems" show ?thesis by (simp add: groq_attempts.simps [of keys P prompt attempt])
  next
    case True
    obtain apiKey r1 where sel: "createGroqLLM keys r = (apiKey, r1)" by (cases "createGroqLLM keys r")
    show ?thesis
    proof (cases "groq_invoke P attempt apiKey prompt")
      case (Inr response)
      with True sel "1.prems" have "calls = [CallGroq apiKey (Inr response)]"
        by (simp add: groq_attempts.simps [of keys P prompt attempt])
      then show ?thesis by simp
    next
      case (Inl error)
      let ?r2 = "markGroqKeyFailed apiKey r1"
      show ?thesis
      proof (cases "is_rate_limited error")
        case False
        with True sel Inl "1.prems" have "calls = [CallGroq apiKey (Inl error), MarkGroqKeyFailed apiKey]"
          by (simp add: groq_attempts.simps [of keys P prompt attempt] Let_def)
        then show ?thesis by simp
      next
        case rate: True
        obtain res2 le2 r3 calls2 where rec:
          "groq_attempts keys P prompt (attempt + 1) ?r2 (Some error) = (res2, le2, r3, calls2)"
          by (metis prod_cases4)
        with True sel Inl rate "1.prems" have c:
          "calls = CallGroq apiKey (Inl error) # MarkGroqKeyFailed apiKey # calls2"
          by (simp add: groq_attempts.simps [of keys P prompt attempt] Let_def)
        from "1.IH" [OF True sel [symmetric] Inl refl rate rec] c show ?thesis by simp
      qed
    qed
  qed
qed


lemma groq_results_append: "groq_results (a @ b) = groq_results a @ groq_results b"
  by (induction a rule: groq_results.induct) simp_all

lemma outcomes_append: "outcomes (a @ b) = outcomes a @ outcomes b"
  by (induction a rule: outcomes.induct) simp_all

lemma shape_prefix:
  assumes "gs = map Inl es @ fin" and "list_all is_rate_limited es" and "length fin \<le> 1"
    and "Suc i < length gs"
  shows "\<exists>e. gs ! i = Inl e \<and> is_rate_limited e"
proof -
  from assms(1,3,4) have i: "i < length es" by simp
  with assms(1) have "gs ! i = Inl (es ! i)" by (simp add: nth_append)
  moreover from assms(2) i have "is_rate_limited (es ! i)" by (simp add: list_all_length)
  ultimately show ?thesis by blast
qed

lemma invokeLLMWithFallback_groq_cases:
  assumes "invokeLLMWithFallback_groq keys P prompt preferOpenAI r = (res, r', calls)"
    and "groq_attempts keys P prompt 0 r None = (g, le, r1, cs)"
  shows "(\<exists>x. g = Some x \<and> res = Inr x \<and> calls = cs)
       \<or> (\<exists>y. g = None \<and> Boolean (OPENAI_API_KEY P) \<and> \<not> preferOpenAI \<and>
              res = Inr y \<and> calls = cs @ [CallOpenAI (Inr y)])
       \<or> (\<exists>e. g = None \<and> Boolean (OPENAI_API_KEY P) \<and> \<not> preferOpenAI \<and>
              res = Inl (thrown_error le) \<and> calls = cs @ [CallOpenAI (Inl e)])
       \<or> (g = None \<and> \<not> (Boolean (OPENAI_API_KEY P) \<and> \<not> preferOpenAI) \<and>
              res = Inl (thrown_error le) \<and> calls = cs)"
proof (cases g)
  case (Some x)
  with assms show ?thesis by (simp add: invokeLLMWithFallback_groq_def)
next
  case None
  show ?thesis
  proof (cases "Boolean (OPENAI_API_KEY P) \<and> \<not> preferOpenAI")
    case False
    with None assms show ?thesis by (simp add: invokeLLMWithFallback_groq_def)
  next
    case True
    show ?thesis
    proof (cases "openai_invoke P prompt")
      case (Inl e)
      with True None assms have "res = Inl (thrown_error le)" "calls = cs @ [CallOpenAI (Inl e)]"
        by (auto simp: invokeLLMWithFallback_groq_def)
      with True None show ?thesis by blast
    next
      case (Inr y)
      with True None assms have "res = Inr y" "calls = cs @ [CallOpenAI (Inr y)]"
        by (auto simp: invokeLLMWithFallback_groq_def)
      with True None show ?thesis by blast
    qed
  qed
qed


lemma invokeLLMWithFallback_groq_props:
  assumes "invokeLLMWithFallback_groq keys P prompt preferOpenAI r = (res, r', calls)"
  shows "length (groq_results calls) \<le> length keys"
    and "failures_reported calls"
    and "Suc i < length (groq_results calls) \<Longrightarrow> \<exists>e. groq_results calls ! i = Inl e \<and> is_rate_limited e"
    and "groq_results calls \<noteq> [] \<Longrightarrow> last (groq_results calls) = Inl e \<Longrightarrow> is_rate_limited e
           \<Longrightarrow> length (groq_results calls) = length keys"
    and "res = Inr x \<Longrightarrow> outcomes calls \<noteq> [] \<and> last (outcomes calls) = Inr x"
    and "res = Inl err \<Longrightarrow> list_all is_failure (outcomes calls) \<and> err = thrown_error (last_groq_error calls)
           \<and> (groq_results calls = [] \<longrightarrow> keys = [])
           \<and> (Boolean (OPENAI_API_KEY P) \<and> \<not> preferOpenAI \<longrightarrow> (\<exists>e. CallOpenAI (Inl e) \<in> set calls))"
proof -
  obtain g le r1 cs where ga: "groq_attempts keys P prompt 0 r None = (g, le, r1, cs)"
    by (metis prod_cases4)
  from groq_attempts_shape [OF ga] obtain es fin where sh:
    "outcomes cs = groq_results cs" "groq_results cs = map Inl es @ fin"
    "list_all is_rate_limited es" "length es + length fin \<le> length keys"
    "(fin = [] \<and> g = None \<and> le = (if es = [] then None else Some (last es)) \<and> length es = length keys)
       \<or> (\<exists>x. fin = [Inr x] \<and> g = Some x)
       \<or> (\<exists>e. fin = [Inl e] \<and> \<not> is_rate_limited e \<and> g = None \<and> le = Some e)"
    by auto
  from sh(5) have fin1: "length fin \<le> 1" by auto
  have rep: "failures_reported (cs @ rest) = failures_reported rest" for rest
    using groq_attempts_reported [OF ga] .
  note cases = invokeLLMWithFallback_groq_cases [OF assms ga]
  have gr: "groq_results calls = groq_results cs"
    using cases by (auto simp: groq_results_append)
  have oc: "outcomes calls = groq_results cs \<or> (\<exists>z. outcomes calls = groq_results cs @ [z])"
    using cases sh(1) by (auto simp: outcomes_append)
  show "length (groq_results calls) \<le> length keys" using gr sh(2,4) by simp
  have rep0: "failures_reported cs" using rep [of "[]"] by simp
  have rep1: "failures_reported (cs @ [CallOpenAI z])" for z using rep [of "[CallOpenAI z]"] by simp
  show "failures_reported calls"
    using cases by (elim disjE exE conjE) (simp_all add: rep0 rep1)
  show "\<exists>e. groq_results calls ! i = Inl e \<and> is_rate_limited e" if "Suc i < length (groq_results calls)"
    using shape_prefix [OF sh(2,3) fin1] that gr by simp
  show "length (groq_results calls) = length keys"
    if "groq_results calls \<noteq> []" "last (groq_results calls) = Inl e" "is_rate_limited e"
  proof -
    from sh(5) show ?thesis
    proof (elim disjE exE conjE)
      assume "fin = []" "length es = length keys"
      with gr sh(2) show ?thesis by simp
    next
      fix x assume "fin = [Inr x]"
      with gr sh(2) that(2) show ?thesis by simp
    next
      fix e' assume "fin = [Inl e']" "\<not> is_rate_limited e'"
      with gr sh(2) that(2,3) show ?thesis by simp
    qed
  qed
  show "outcomes calls \<noteq> [] \<and> last (outcomes calls) = Inr x" if "res = Inr x"
  proof -
    from cases that have "(g = Some x \<and> calls = cs) \<or> (g = None \<and> calls = cs @ [CallOpenAI (Inr x)])"
      by auto
    then show ?thesis
    proof
      assume a: "g = Some x \<and> calls = cs"
      with sh(5) have "fin = [Inr x]" by auto
      with a sh(1,2) show ?thesis by simp
    next
      assume "g = None \<and> calls = cs @ [CallOpenAI (Inr x)]"
      then show ?thesis by (simp add: outcomes_append)
    qed
  qed
  show "list_all is_failure (outcomes calls) \<and> err = thrown_error (last_groq_error calls)
           \<and> (groq_results calls = [] \<longrightarrow> keys = [])
           \<and> (Boolean (OPENAI_API_KEY P) \<and> \<not> preferOpenAI \<longrightarrow> (\<exists>e. CallOpenAI (Inl e) \<in> set calls))"
    if "res = Inl err"
  proof -
    from cases that have g: "g = None" and err: "err = thrown_error le"
      and c: "(\<exists>e. Boolean (OPENAI_API_KEY P) \<and> \<not> preferOpenAI \<and> calls = cs @ [CallOpenAI (Inl e)])
               \<or> (\<not> (Boolean (OPENAI_API_KEY P) \<and> \<not> preferOpenAI) \<and> calls = cs)"
      by auto
    from g sh(5) have sc: "(fin = [] \<and> le = (if es = [] then None else Some (last es)) \<and> length es = length keys)
        \<or> (\<exists>e. fin = [Inl e] \<and> le = Some e)" by auto
    have allf: "list_all is_failure (groq_results cs)"
      using sc sh(2) by (auto simp: list_all_iff)
    have lge: "last_groq_error calls = le"
      using sc sh(2) gr by (auto simp: last_groq_error_def rev_map last_rev hd_rev split: list.splits)
    have "list_all is_failure (outcomes calls)"
      using c allf sh(1) by (auto simp: outcomes_append)
    moreover have "groq_results calls = [] \<longrightarrow> keys = []"
      using sc sh(2) gr by auto
    moreover have "Boolean (OPENAI_API_KEY P) \<and> \<not> preferOpenAI \<longrightarrow> (\<exists>e. CallOpenAI (Inl e) \<in> set calls)"
      using c by auto
    ultimately show ?thesis using err lge by simp
  qed
qed


text \<open>
  C5 (as amended). In every run of \<open>invokeLLMWithFallback\<close>: the Groq backend is called at
  most as many times as there are keys in the pool; every failed Groq call is followed at
  once by \<open>markGroqKeyFailed\<close> on the key it used; every Groq call but the last failed
  with an error classified as rate limiting (only such a failure is followed by another
  attempt), and when the last Groq call failed with a rate-limiting error the number of
  calls has reached the size of the pool. A response that is returned is the response of
  the last call made. When every call made has failed, an error is thrown, and conversely;
  then the Groq loop ran unless the pool is empty, the OpenAI backend was called if it is
  configured, and the error thrown is the error of the last Groq call (the OpenAI error is
  not kept), or the generic error \<open>All LLM providers failed\<close> when no Groq call was made.
\<close>

theorem invokeLLMWithFallback_bounded_rotation:
  assumes "invokeLLMWithFallback keys P prompt preferOpenAI r = (res, r', calls)"
  shows "length (groq_results calls) \<le> length keys
       \<and> failures_reported calls
       \<and> (\<forall>i. Suc i < length (groq_results calls) \<longrightarrow>
              (\<exists>e. groq_results calls ! i = Inl e \<and> is_rate_limited e))
       \<and> (\<forall>e. groq_results calls \<noteq> [] \<and> last (groq_results calls) = Inl e \<and> is_rate_limited e \<longrightarrow>
              length (groq_results calls) = length keys)
       \<and> (\<forall>x. res = Inr x \<longrightarrow> outcomes calls \<noteq> [] \<and> last (outcomes calls) = Inr x)
       \<and> (list_all is_failure (outcomes calls) \<longrightarrow> (\<exists>err. res = Inl err))
       \<and> (\<forall>err. res = Inl err \<longrightarrow>
              list_all is_failure (outcomes calls)
            \<and> err = thrown_error (last_groq_error calls)
            \<and> (groq_results calls = [] \<longrightarrow> keys = [])
            \<and> (Boolean (OPENAI_API_KEY P) \<longrightarrow> (\<exists>e. CallOpenAI (Inl e) \<in> set calls)))"
proof -
  have core: "length (groq_results cs) \<le> length keys
       \<and> failures_reported cs
       \<and> (\<forall>i. Suc i < length (groq_results cs) \<longrightarrow>
              (\<exists>e. groq_results cs ! i = Inl e \<and> is_rate_limited e))
       \<and> (\<forall>e. groq_results cs \<noteq> [] \<and> last (groq_results cs) = Inl e \<and> is_rate_limited e \<longrightarrow>
              length (groq_results cs) = length keys)
       \<and> (\<forall>x. res = Inr x \<longrightarrow> outcomes cs \<noteq> [] \<and> last (outcomes cs) = Inr x)
       \<and> (\<forall>err. res = Inl err \<longrightarrow>
              list_all is_failure (outcomes cs)
            \<and> err = thrown_error (last_groq_error cs)
            \<and> (groq_results cs = [] \<longrightarrow> keys = [])
            \<and> (Boolean (OPENAI_API_KEY P) \<and> \<not> preferOpenAI \<longrightarrow> (\<exists>e. CallOpenAI (Inl e) \<in> set cs)))"
    if "invokeLLMWithFallback_groq keys P prompt preferOpenAI r = (res, r', cs)" for cs
    using invokeLLMWithFallback_groq_props [OF that] by blast
  have all_failed: "list_all is_failure (outcomes cs) \<longrightarrow> (\<exists>err. res = Inl err)"
    if "\<forall>x. res = Inr x \<longrightarrow> outcomes cs \<noteq> [] \<and> last (outcomes cs) = Inr x" for cs
  proof (cases res)
    case (Inl err)
    then show ?thesis by simp
  next
    case (Inr x)
    with that have "outcomes cs \<noteq> []" "last (outcomes cs) = Inr x" by simp_all
    then have "Inr x \<in> set (outcomes cs)" using last_in_set by metis
    moreover have "\<not> is_failure (Inr x :: js_error + response)" by simp
    ultimately have "\<not> list_all is_failure (outcomes cs)" unfolding list_all_iff by blast
    then show ?thesis by simp
  qed
  show ?thesis
  proof (cases "preferOpenAI \<and> Boolean (OPENAI_API_KEY P)")
    case False
    with assms have "invokeLLMWithFallback_groq keys P prompt preferOpenAI r = (res, r', calls)"
      by (simp add: invokeLLMWithFallback_def)
    from core [OF this] all_failed [of calls] False show ?thesis by blast
  next
    case True
    show ?thesis
    proof (cases "openai_invoke P prompt")
      case (Inr x)
      with True assms have "res = Inr x" "calls = [CallOpenAI (Inr x)]"
        by (auto simp: invokeLLMWithFallback_def)
      then show ?thesis by simp
    next
      case (Inl e0)
      obtain cs where run: "invokeLLMWithFallback_groq keys P prompt preferOpenAI r = (res, r', cs)"
        and calls: "calls = CallOpenAI (Inl e0) # cs"
        using True Inl assms by (auto simp: invokeLLMWithFallback_def split: prod.splits)
      note c = core [OF run]
      have g: "groq_results calls = groq_results cs" using calls by simp
      have o: "outcomes calls = Inl e0 # outcomes cs" using calls by simp
      have f: "failures_reported calls = failures_reported cs" using calls by simp
      have l: "last_groq_error calls = last_groq_error cs" using g by (simp add: last_groq_error_def)
      have s: "CallOpenAI (Inl e0) \<in> set calls" using calls by simp
      have ok: "\<forall>x. res = Inr x \<longrightarrow> outcomes calls \<noteq> [] \<and> last (outcomes calls) = Inr x"
        using c o by auto
      have err: "\<forall>err. res = Inl err \<longrightarrow>
              list_all is_failure (outcomes calls)
            \<and> err = thrown_error (last_groq_error calls)
            \<and> (groq_results calls = [] \<longrightarrow> keys = [])
            \<and> (Boolean (OPENAI_API_KEY P) \<longrightarrow> (\<exists>e. CallOpenAI (Inl e) \<in> set calls))"
        using c o g l s by auto
      from c g f ok err all_failed [OF ok] show ?thesis by simp
    qed
  qed
qed

lemma providers_rate_limited_run:
  "invokeLLMWithFallback [''k1'', ''k2''] providers_rate_limited ''q'' False rotor_init =
     (Inl \<lparr>message = Some ''rate limit reached'', status = Some 429\<rparr>,
      \<lparr>currentGroqKeyIndex = 0, keyFailureCounts = [''k1'' \<mapsto> 1, ''k2'' \<mapsto> 1]\<rparr>,
      [CallGroq (Some ''k1'') (Inl \<lparr>message = Some ''rate limit reached'', status = Some 429\<rparr>),
       MarkGroqKeyFailed (Some ''k1''),
       CallGroq (Some ''k2'') (Inl \<lparr>message = Some ''rate limit reached'', status = Some 429\<rparr>),
       MarkGroqKeyFailed (Some ''k2'')])"
  by (simp add: invokeLLMWithFallback_def invokeLLMWithFallback_groq_def groq_attempts.simps
      createGroqLLM_def getNextGroqApiKey_def markGroqKeyFailed_def failures_of_def
      is_rate_limited_def rotor_init_def thrown_error_def Boolean_def providers_rate_limited_def
      Let_def)

theorem invokeLLMWithFallback_bounded_rotation_witness:
  "(case invokeLLMWithFallback [''k1'', ''k2''] providers_rate_limited ''q'' False rotor_init of
      (res, r', calls) \<Rightarrow>
        res = Inl \<lparr>message = Some ''rate limit reached'', status = Some 429\<rparr>
        \<and> length (groq_results calls) = 2
        \<and> failures_reported calls
        \<and> list_all is_failure (outcomes calls)
        \<and> res = Inl (thrown_error (last_groq_error calls)))"
proof -
  let ?e = "\<lparr>message = Some ''rate limit reached'', status = Some 429\<rparr>"
  let ?calls = "[CallGroq (Some ''k1'') (Inl ?e), MarkGroqKeyFailed (Some ''k1''),
                 CallGroq (Some ''k2'') (Inl ?e), MarkGroqKeyFailed (Some ''k2'')]"
  from invokeLLMWithFallback_bounded_rotation [OF providers_rate_limited_run]
  have "failures_reported ?calls \<and> list_all is_failure (outcomes ?calls)
        \<and> ?e = thrown_error (last_groq_error ?calls)"
    by blast
  then show ?thesis by (simp add: providers_rate_limited_run)
qed

text \<open>
  One key, a Groq failure that is not rate limiting, then a failure of the OpenAI
  fallback: the error thrown is the Groq error, and the last error observed is the OpenAI
  error. And with two keys of which \<open>k1\<close> has three recorded failures, two rate-limited
  attempts both use \<open>k2\<close>: the bound is on the number of attempts, not on the attempts
  per key.
\<close>

theorem invokeLLMWithFallback_last_observed_error_counterexample:
  "(case invokeLLMWithFallback [''k1''] providers_all_fail ''q'' False rotor_init of
      (res, r', calls) \<Rightarrow>
        res = Inl \<lparr>message = Some ''invalid request'', status = Some 400\<rparr>
        \<and> last (outcomes calls) = Inl \<lparr>message = Some ''service unavailable'', status = Some 503\<rparr>
        \<and> res \<noteq> last (outcomes calls))
   \<and> (case invokeLLMWithFallback [''k1'', ''k2''] providers_rate_limited ''q'' False
             \<lparr>currentGroqKeyIndex = 0, keyFailureCounts = [''k1'' \<mapsto> 3]\<rparr> of
        (res, r', calls) \<Rightarrow> groq_keys calls = [Some ''k2'', Some ''k2''])"
proof -
  have first: "(case invokeLLMWithFallback [''k1''] providers_all_fail ''q'' False rotor_init of
      (res, r', calls) \<Rightarrow>
        res = Inl \<lparr>message = Some ''invalid request'', status = Some 400\<rparr>
        \<and> last (outcomes calls) = Inl \<lparr>message = Some ''service unavailable'', status = Some 503\<rparr>
        \<and> res \<noteq> last (outcomes calls))"
    by (simp add: invokeLLMWithFallback_def invokeLLMWithFallback_groq_def groq_attempts.simps
        createGroqLLM_def getNextGroqApiKey_def markGroqKeyFailed_def failures_of_def
        is_rate_limited_def rotor_init_def thrown_error_def Boolean_def providers_all_fail_def
        Let_def)
  have second: "(case invokeLLMWithFallback [''k1'', ''k2''] providers_rate_limited ''q'' False
             \<lparr>currentGroqKeyIndex = 0, keyFailureCounts = [''k1'' \<mapsto> 3]\<rparr> of
        (res, r', calls) \<Rightarrow> groq_keys calls = [Some ''k2'', Some ''k2''])"
    by (simp add: invokeLLMWithFallback_def invokeLLMWithFallback_groq_def groq_attempts.simps
        createGroqLLM_def getNextGroqApiKey_def markGroqKeyFailed_def failures_of_def
        is_rate_limited_def thrown_error_def Boolean_def providers_rate_limited_def Let_def)
  from first second show ?thesis by simp
qed

section \<open>Properties of the citation list\<close>

lemma Map_set_keys:
  "map fst (Map_set m k v) = (if k \<in> set (map fst m) then map fst m else map fst m @ [k])"
  by (induction m) force+

lemma Map_set_map_of: "map_of (Map_set m k v) = (map_of m)(k \<mapsto> v)"
  by (induction m) (auto simp: fun_eq_iff)

lemma remdups_drop_repeated: "k \<in> set b \<Longrightarrow> remdups (a @ k # b) = remdups (a @ b)"
  by (induction a) auto


lemma foldl_Map_set_first_seen:
  "distinct (map fst m) \<Longrightarrow>
     map fst (foldl (\<lambda>m (k, v). Map_set m k v) m es) = rev (remdups (rev (map fst m @ map fst es)))"
proof (induction es arbitrary: m)
  case Nil
  then show ?case by (simp add: distinct_remdups_id)
next
  case (Cons e es)
  obtain k v where e: "e = (k, v)" by (cases e)
  have d: "distinct (map fst (Map_set m k v))"
    using Cons.prems by (simp add: Map_set_keys)
  show ?case
  proof (cases "k \<in> set (map fst m)")
    case True
    then have "k \<in> set (rev (map fst m))" by simp
    from remdups_drop_repeated [OF this, of "rev (map fst es)"]
    have "remdups (rev (map fst m @ k # map fst es)) = remdups (rev (map fst m @ map fst es))"
      by simp
    with Cons.IH [OF d] True e show ?thesis by (simp add: Map_set_keys)
  next
    case False
    with Cons.IH [OF d] e show ?thesis by (simp add: Map_set_keys)
  qed
qed

lemma foldl_Map_set_map_of:
  "map_of (foldl (\<lambda>m (k, v). Map_set m k v) m es) = map_of m ++ map_of (rev es)"
proof (induction es arbitrary: m)
  case Nil
  show ?case by simp
next
  case (Cons e es)
  obtain k v where e: "e = (k, v)" by (cases e)
  have "map_of (foldl (\<lambda>m (k, v). Map_set m k v) (Map_set m k v) es)
          = (map_of m)(k \<mapsto> v) ++ map_of (rev es)"
    using Cons.IH [of "Map_set m k v"] unfolding Map_set_map_of .
  also have "\<dots> = map_of m ++ map_of (rev es @ [(k, v)])"
    by (simp add: fun_eq_iff map_add_def split: option.splits)
  finally show ?case using e by simp
qed

lemma new_Map_first_seen: "map fst (new_Map es) = rev (remdups (rev (map fst es)))"
  using foldl_Map_set_first_seen [of "[]" es] by (simp add: new_Map_def)

lemma new_Map_distinct: "distinct (map fst (new_Map es))"
  by (simp add: new_Map_first_seen)

lemma new_Map_map_of: "map_of (new_Map es) = map_of (rev es)"
  using foldl_Map_set_map_of [of "[]" es] by (simp add: new_Map_def)

lemma map_of_rev_keyed_last:
  "map_of (rev (map (\<lambda>i. (f i, i)) items)) k = Some v \<Longrightarrow> v = last (filter (\<lambda>i. f i = k) items)"
proof (induction items rule: rev_induct)
  case Nil
  then show ?case by simp
next
  case (snoc x xs)
  then show ?case by (cases "f x = k") auto
qed

lemma dedupe_by_title_titles:
  "map case_title (dedupe_by_title items) = rev (remdups (rev (map case_title items)))"
proof -
  let ?es = "map (\<lambda>item. (case_title item, item)) items"
  have "\<forall>(k, v) \<in> set (new_Map ?es). case_title v = k"
  proof clarify
    fix k v assume "(k, v) \<in> set (new_Map ?es)"
    with new_Map_distinct [of ?es] have "map_of (new_Map ?es) k = Some v" by simp
    then have "map_of (rev ?es) k = Some v" by (simp add: new_Map_map_of)
    then have "(k, v) \<in> set ?es" using map_of_SomeD by fastforce
    then show "case_title v = k" by auto
  qed
  then have "map case_title (map snd (new_Map ?es)) = map fst (new_Map ?es)"
    by (auto simp: list_eq_iff_nth_eq split_beta)
  then show ?thesis
    by (simp add: dedupe_by_title_def Map_values_def new_Map_first_seen comp_def)
qed

lemma dedupe_by_title_last:
  assumes "s \<in> set (dedupe_by_title items)"
  shows "s = last (filter (\<lambda>c. case_title c = case_title s) items)"
proof -
  let ?es = "map (\<lambda>item. (case_title item, item)) items"
  from assms obtain k where kv: "(k, s) \<in> set (new_Map ?es)"
    by (auto simp: dedupe_by_title_def Map_values_def)
  with new_Map_distinct [of ?es] have "map_of (new_Map ?es) k = Some s" by simp
  then have m: "map_of (rev ?es) k = Some s" by (simp add: new_Map_map_of)
  then have "(k, s) \<in> set ?es" using map_of_SomeD by fastforce
  then have "k = case_title s" by auto
  with map_of_rev_keyed_last [OF m] show ?thesis by simp
qed

lemma dedupe_by_title_subset: "set (dedupe_by_title items) \<subseteq> set items"
proof
  fix s assume s: "s \<in> set (dedupe_by_title items)"
  let ?f = "filter (\<lambda>c. case_title c = case_title s) items"
  have "case_title s \<in> set (map case_title (dedupe_by_title items))" using s by simp
  then have "case_title s \<in> set (map case_title items)" by (simp add: dedupe_by_title_titles)
  then have ne: "?f \<noteq> []" by (auto simp: filter_empty_conv)
  from dedupe_by_title_last [OF s] have "s = last ?f" .
  with ne have "s \<in> set ?f" using last_in_set by metis
  then show "s \<in> set items" by simp
qed

section \<open>Properties of the streaming pipeline\<close>

lemma stream_chunks_result:
  "stream_chunks tokens acc w =
     (acc @ concat tokens, w\<lparr>trace := trace w @ map (\<lambda>t. Res_write (ChunkEvent t)) tokens\<rparr>)"
  by (induction tokens arbitrary: acc w) (simp_all add: res_write_def emit_def)

text \<open>
  \<open>getResources\<close> touches the rotor and the cache of the vector store only, and it
  returns a key exactly when the clients can be built.
\<close>

lemma createGroqLLM_key: "fst (createGroqLLM keys r) = None \<longleftrightarrow> keys = []"
proof (cases "getNextGroqApiKey_loop keys r 0")
  case None
  then show ?thesis
    by (cases keys) (simp_all add: createGroqLLM_def getNextGroqApiKey_def)
next
  case (Some p)
  obtain key r' where p: "p = (key, r')" by (cases p)
  from Some p have "key \<in> set keys" using getNextGroqApiKey_loop_Some by blast
  then have "keys \<noteq> []" by auto
  with Some p show ?thesis by (simp add: createGroqLLM_def getNextGroqApiKey_def)
qed

lemma groq_client_frame:
  assumes "groq_client keys env w = (r, w1)"
  shows "trace w1 = trace w \<and> chats w1 = chats w \<and> users w1 = users w
       \<and> headersSent w1 = headersSent w"
  using assms
  by (auto simp: groq_client_def split: prod.splits option.splits)

lemma getResources_frame:
  assumes "getResources keys env w = (r, w1)"
  shows "trace w1 = trace w \<and> chats w1 = chats w \<and> users w1 = users w
       \<and> headersSent w1 = headersSent w"
proof (cases "vectorStoreInstance w")
  case True
  with assms show ?thesis using groq_client_frame [of keys env w r w1] by (simp add: getResources_def)
next
  case False
  show ?thesis
  proof (cases "vector_store_init env")
    case None
    with False assms
    have "groq_client keys env (w\<lparr>vectorStoreInstance := True\<rparr>) = (r, w1)"
      by (simp add: getResources_def)
    from groq_client_frame [OF this] show ?thesis by simp
  next
    case (Some e)
    with False assms show ?thesis by (auto simp: getResources_def)
  qed
qed

lemma groq_client_result:
  "fst (groq_client keys env w)
     = (if keys = [] then Inl (missing_key_error env) else Inr (fst (createGroqLLM keys (rotor w))))"
proof -
  obtain apiKey r' where sel: "createGroqLLM keys (rotor w) = (apiKey, r')"
    by (cases "createGroqLLM keys (rotor w)")
  with createGroqLLM_key [of keys "rotor w"] have "apiKey = None \<longleftrightarrow> keys = []" by simp
  with sel show ?thesis
    by (cases apiKey) (simp_all add: groq_client_def new_ChatGroq_def)
qed

lemma getResources_builds:
  "resources_build keys env w \<longleftrightarrow> (\<exists>k. fst (getResources keys env w) = Inr k)"
proof (cases "vectorStoreInstance w")
  case True
  then show ?thesis
    by (simp add: getResources_def resources_build_def groq_client_result)
next
  case False
  then show ?thesis
    by (cases "vector_store_init env")
       (simp_all add: getResources_def resources_build_def groq_client_result)
qed

text \<open>
  The runs of the pipeline: what it returns and what it appends to the trace. The stores
  and the response's \<open>headersSent\<close> are not touched.
\<close>

lemma streamLegalAssistantResponse_cases
  [consumes 1, case_names resources_fail greeting search_fails llm_rejects stream_throws completes]:
  assumes "streamLegalAssistantResponse keys env userInput history w = (res, w')"
  obtains
    (resources_fail) e where
      "fst (getResources keys env w) = Inl e"
      "res = Inl e"
      "trace w' = trace w @ [Res_write (ErrorEvent (ErrorText ''Internal Server Error''))]"
      "users w' = users w" "chats w' = chats w" "headersSent w' = headersSent w"
  | (greeting) k where
      "cleanInput userInput \<in> set greetings \<or> length (cleanInput userInput) < 3"
      "res = Inr (''Greeting'', [])"
      "trace w' = trace w @ [Res_write (SourcesEvent []), Res_write (ChunkEvent greeting_text),
                             Res_write EndEvent]"
      "fst (getResources keys env w) = Inr k"
      "users w' = users w" "chats w' = chats w" "headersSent w' = headersSent w"
  | (search_fails) e k where
      "\<not> (cleanInput userInput \<in> set greetings \<or> length (cleanInput userInput) < 3)"
      "similaritySearchWithScore env (cleanQuery userInput) 4 = Inl e"
      "res = Inl e"
      "trace w' = trace w @ [SimilaritySearch (cleanQuery userInput) 4,
                             Res_write (ErrorEvent (ErrorText ''Internal Server Error''))]"
      "fst (getResources keys env w) = Inr k"
      "users w' = users w" "chats w' = chats w" "headersSent w' = headersSent w"
  | (llm_rejects) results e k msgs where
      "\<not> (cleanInput userInput \<in> set greetings \<or> length (cleanInput userInput) < 3)"
      "similaritySearchWithScore env (cleanQuery userInput) 4 = Inr results"
      "fst (getResources keys env w) = Inr k"
      "msgs = messages env results history userInput"
      "llm_stream env k msgs = Inl e"
      "res = Inl e"
      "trace w' = trace w @ [SimilaritySearch (cleanQuery userInput) 4,
                             Res_write (SourcesEvent (uniqueSources results)),
                             LLM_stream k msgs,
                             Res_write (ErrorEvent (ErrorText ''Internal Server Error''))]"
      "users w' = users w" "chats w' = chats w" "headersSent w' = headersSent w"
  | (stream_throws) results tokens e k msgs where
      "\<not> (cleanInput userInput \<in> set greetings \<or> length (cleanInput userInput) < 3)"
      "similaritySearchWithScore env (cleanQuery userInput) 4 = Inr results"
      "fst (getResources keys env w) = Inr k"
      "msgs = messages env results history userInput"
      "llm_stream env k msgs = Inr (tokens, Some e)"
      "res = Inl e"
      "trace w' = trace w @ [SimilaritySearch (cleanQuery userInput) 4,
                             Res_write (SourcesEvent (uniqueSources results)),
                             LLM_stream k msgs]
                   @ map (\<lambda>t. Res_write (ChunkEvent t)) tokens
                   @ [Res_write (ErrorEvent (ErrorText ''Internal Server Error''))]"
      "users w' = users w" "chats w' = chats w" "headersSent w' = headersSent w"
  | (completes) results tokens k msgs where
      "\<not> (cleanInput userInput \<in> set greetings \<or> length (cleanInput userInput) < 3)"
      "similaritySearchWithScore env (cleanQuery userInput) 4 = Inr results"
      "fst (getResources keys env w) = Inr k"
      "msgs = messages env results history userInput"
      "llm_stream env k msgs = Inr (tokens, None)"
      "res = Inr (concat tokens, uniqueSources results)"
      "trace w' = trace w @ [SimilaritySearch (cleanQuery userInput) 4,
                             Res_write (SourcesEvent (uniqueSources results)),
                             LLM_stream k msgs]
                   @ map (\<lambda>t. Res_write (ChunkEvent t)) tokens
                   @ [Res_write EndEvent]"
      "users w' = users w" "chats w' = chats w" "headersSent w' = headersSent w"
proof -
  let ?g = "cleanInput userInput \<in> set greetings \<or> length (cleanInput userInput) < 3"
  let ?q = "cleanQuery userInput"
  let ?err = "Res_write (ErrorEvent (ErrorText ''Internal Server Error''))"
  obtain r w1 where gr: "getResources keys env w = (r, w1)"
    by (cases "getResources keys env w")
  from getResources_frame [OF gr]
  have fr: "trace w1 = trace w" "chats w1 = chats w" "users w1 = users w"
    "headersSent w1 = headersSent w"
    by simp_all
  show thesis
  proof (cases r)
    case (Inl e)
    with assms gr have "res = Inl e" and "w' = w1\<lparr>trace := trace w1 @ [?err]\<rparr>"
      by (auto simp: streamLegalAssistantResponse_def stream_catch_def res_write_def emit_def)
    with gr Inl fr show thesis using resources_fail [of e] by simp
  next
    case key: (Inr apiKey)
    with gr have k: "fst (getResources keys env w) = Inr apiKey" by simp
    show thesis
    proof (cases ?g)
      case True
      with assms gr key have "res = Inr (''Greeting'', [])"
        and "w' = w1\<lparr>trace := trace w1 @ [Res_write (SourcesEvent []),
               Res_write (ChunkEvent greeting_text), Res_write EndEvent]\<rparr>"
        by (auto simp: streamLegalAssistantResponse_def res_write_def emit_def)
      with True fr show thesis using greeting [OF _ _ _ k] by simp
    next
      case False
      show thesis
      proof (cases "similaritySearchWithScore env ?q 4")
        case (Inl e)
        with False assms gr key have "res = Inl e"
          and "w' = w1\<lparr>trace := trace w1 @ [SimilaritySearch ?q 4, ?err]\<rparr>"
          by (auto simp: streamLegalAssistantResponse_def stream_catch_def res_write_def emit_def
              Let_def)
        with False Inl fr show thesis using search_fails [OF _ _ _ _ k] by simp
      next
        case (Inr results)
        let ?msgs = "messages env results history userInput"
        let ?pre = "[SimilaritySearch ?q 4, Res_write (SourcesEvent (uniqueSources results)),
                     LLM_stream apiKey ?msgs]"
        show thesis
        proof (cases "llm_stream env apiKey ?msgs")
          case llm: (Inl e)
          with False Inr assms gr key have "res = Inl e"
            and "w' = w1\<lparr>trace := trace w1 @ ?pre @ [?err]\<rparr>"
            by (auto simp: streamLegalAssistantResponse_def stream_catch_def res_write_def
                emit_def Let_def)
          with False Inr llm fr show thesis using llm_rejects [OF _ _ k refl] by simp
        next
          case llm: (Inr p)
          obtain tokens failure where p: "p = (tokens, failure)" by (cases p)
          show thesis
          proof (cases failure)
            case None
            with False Inr llm p assms gr key
            have "res = Inr (concat tokens, uniqueSources results)"
              and "w' = w1\<lparr>trace := trace w1 @ ?pre
                     @ map (\<lambda>t. Res_write (ChunkEvent t)) tokens @ [Res_write EndEvent]\<rparr>"
              by (auto simp: streamLegalAssistantResponse_def stream_chunks_result res_write_def
                  emit_def Let_def)
            with False Inr llm p None fr show thesis using completes [OF _ _ k refl] by simp
          next
            case (Some e)
            with False Inr llm p assms gr key have "res = Inl e"
              and "w' = w1\<lparr>trace := trace w1 @ ?pre
                     @ map (\<lambda>t. Res_write (ChunkEvent t)) tokens @ [?err]\<rparr>"
              by (auto simp: streamLegalAssistantResponse_def stream_chunks_result stream_catch_def
                  res_write_def emit_def Let_def)
            with False Inr llm p Some fr show thesis using stream_throws [OF _ _ k refl] by simp
          qed
        qed
      qed
    qed
  qed
qed

text \<open>
  When the clients cannot be built, the pipeline writes one error event and throws,
  whatever the input.
\<close>

lemma resources_fail_error_event:
  assumes "\<not> resources_build keys env w"
    and "streamLegalAssistantResponse keys env userInput history w = (res, w')"
  shows "(\<exists>e. res = Inl e)
       \<and> trace w' = trace w @ [Res_write (ErrorEvent (ErrorText ''Internal Server Error''))]"
proof -
  from assms(1) have "\<forall>k. fst (getResources keys env w) \<noteq> Inr k"
    using getResources_builds by blast
  with assms(2) show ?thesis
    by (cases rule: streamLegalAssistantResponse_cases) simp_all
qed

lemma uniqueSources_eq: "uniqueSources results = dedupe_by_title (map to_source (validDocs results))"
  by (simp add: uniqueSources_def dedupe_by_title_def Map_values_def new_Map_def)

lemma validDocs_score: "(d, s) \<in> set (validDocs results) \<Longrightarrow> js_ge s double_0_6"
  by (auto simp: validDocs_def split: if_splits)

lemma uniqueSources_props:
  "(\<forall>s \<in> set (uniqueSources results). js_ge (score s) double_0_6)
   \<and> distinct (map case_title (uniqueSources results))
   \<and> map case_title (uniqueSources results)
       = rev (remdups (rev (map (\<lambda>c. case_title (to_source c)) (validDocs results))))
   \<and> (\<forall>s \<in> set (uniqueSources results).
         s = last (filter (\<lambda>c. case_title c = case_title s) (map to_source (validDocs results))))"
proof (intro conjI ballI)
  fix s assume "s \<in> set (uniqueSources results)"
  then have "s \<in> set (map to_source (validDocs results))"
    using dedupe_by_title_subset [of "map to_source (validDocs results)"]
    unfolding uniqueSources_eq by blast
  then obtain d sc where "(d, sc) \<in> set (validDocs results)" "s = to_source (d, sc)" by auto
  then show "js_ge (score s) double_0_6"
    using validDocs_score by (simp add: to_source_def Let_def)
next
  show "distinct (map case_title (uniqueSources results))"
    by (simp add: uniqueSources_eq dedupe_by_title_titles)
next
  show "map case_title (uniqueSources results)
       = rev (remdups (rev (map (\<lambda>c. case_title (to_source c)) (validDocs results))))"
    by (simp add: uniqueSources_eq dedupe_by_title_titles comp_def)
next
  fix s assume "s \<in> set (uniqueSources results)"
  then show "s = last (filter (\<lambda>c. case_title c = case_title s) (map to_source (validDocs results)))"
    using dedupe_by_title_last by (simp add: uniqueSources_eq)
qed

lemma events_of_chunks:
  "events_of (map (\<lambda>t. Res_write (ChunkEvent t)) tokens @ rest) = map ChunkEvent tokens @ events_of rest"
  by (induction tokens) simp_all

lemma demo_validDocs:
  "validDocs demo_results = [(doc_first, Num (9 / 10)), (doc_second, Num (7 / 10))]"
  by (simp add: validDocs_def demo_results_def double_0_6_def)

lemma demo_uniqueSources:
  "uniqueSources demo_results
     = [\<lparr>case_title = ''A v B'', source_url = ''u2'', score = Num (7 / 10)\<rparr>]"
  by (simp add: uniqueSources_def demo_validDocs dedupe_by_title_def Map_values_def new_Map_def
      to_source_def doc_first_def doc_second_def or_str_def js_or_def Boolean_def)

lemma demo_cleanInput_greeting: "cleanInput demo_greeting = ''hello''"
  by (simp add: demo_greeting_def cleanInput_def trim_def toLowerCase_def lower_char_def
      is_space_def)

lemma demo_resources_build: "resources_build [''k1''] demo_env demo_world"
  by (simp add: resources_build_def demo_env_def)

lemma demo_cleanInput_question:
  "cleanInput ''What is Section 302 IPC?'' = ''what is section 302 ipc''"
  by (simp add: cleanInput_def trim_def toLowerCase_def lower_char_def is_space_def)

lemma demo_stream_result:
  "fst (streamLegalAssistantResponse [''k1''] demo_env ''What is Section 302 IPC?'' [] demo_world)
     = Inr (''Section 302 punishes murder.'',
            [\<lparr>case_title = ''A v B'', source_url = ''u2'', score = Num (7 / 10)\<rparr>])"
  by (simp add: streamLegalAssistantResponse_def demo_cleanInput_question demo_uniqueSources
      greetings_def getResources_def groq_client_def new_ChatGroq_def createGroqLLM_def
      getNextGroqApiKey_def failures_of_def rotor_init_def demo_world_def demo_env_def
      stream_chunks_result Let_def res_write_def emit_def)

text \<open>
  C1 (as amended). When the pipeline returns, every citation it returns (the list that
  \<open>updateChat\<close> attaches to the assistant turn) has a score that meets the bar
  \<open>score >= 0.6\<close>, and no two citations have the same case title. The titles stand in the
  order of their first occurrence among the candidates that passed the filter; the
  citation kept for a title is the one built from the last such candidate with that
  title.
\<close>

theorem assistantSources_meet_bar_last_title_wins:
  assumes "streamLegalAssistantResponse keys env userInput history w = (Inr (answer, srcs), w')"
  shows "(\<forall>s \<in> set srcs. js_ge (score s) double_0_6)
       \<and> distinct (map case_title srcs)
       \<and> (srcs = [] \<or>
           (\<exists>results. similaritySearchWithScore env (cleanQuery userInput) 4 = Inr results
              \<and> map case_title srcs
                  = rev (remdups (rev (map (\<lambda>c. case_title (to_source c)) (validDocs results))))
              \<and> (\<forall>s \<in> set srcs.
                    s = last (filter (\<lambda>c. case_title c = case_title s)
                                (map to_source (validDocs results))))))"
using assms
proof (cases rule: streamLegalAssistantResponse_cases)
  case greeting
  then show ?thesis by simp
next
  case (completes results tokens k msgs)
  then have "srcs = uniqueSources results" by simp
  with uniqueSources_props [of results] completes(2) show ?thesis by blast
qed simp_all

theorem assistantSources_meet_bar_last_title_wins_witness:
  "(let srcs = snd (projr (fst (streamLegalAssistantResponse [''k1''] demo_env
                                  ''What is Section 302 IPC?'' [] demo_world)))
    in srcs = [\<lparr>case_title = ''A v B'', source_url = ''u2'', score = Num (7 / 10)\<rparr>]
       \<and> list_all (\<lambda>s. js_ge (score s) double_0_6) srcs
       \<and> distinct (map case_title srcs))"
proof -
  let ?run = "streamLegalAssistantResponse [''k1''] demo_env ''What is Section 302 IPC?'' [] demo_world"
  let ?srcs = "[\<lparr>case_title = ''A v B'', source_url = ''u2'', score = Num (7 / 10)\<rparr>]"
  have run: "?run = (Inr (''Section 302 punishes murder.'', ?srcs), snd ?run)"
    using demo_stream_result by (metis prod.collapse)
  from assistantSources_meet_bar_last_title_wins [OF run]
  have "(\<forall>s \<in> set ?srcs. js_ge (score s) double_0_6) \<and> distinct (map case_title ?srcs)"
    by blast
  then show ?thesis by (simp add: demo_stream_result)
qed

text \<open>
  Both candidates titled \<open>A v B\<close> pass the filter; the first occurrence is the one with
  URL \<open>u1\<close> and score 0.9, and the citation that survives is the second, with URL \<open>u2\<close>
  and score 0.7.
\<close>

theorem assistantSources_first_title_counterexample:
  "validDocs demo_results = [(doc_first, Num (9 / 10)), (doc_second, Num (7 / 10))]
   \<and> to_source (doc_first, Num (9 / 10))
       = \<lparr>case_title = ''A v B'', source_url = ''u1'', score = Num (9 / 10)\<rparr>
   \<and> uniqueSources demo_results
       = [\<lparr>case_title = ''A v B'', source_url = ''u2'', score = Num (7 / 10)\<rparr>]
   \<and> uniqueSources demo_results \<noteq> [to_source (doc_first, Num (9 / 10))]"
  by (simp add: demo_validDocs demo_uniqueSources to_source_def doc_first_def or_str_def
      js_or_def Boolean_def)

text \<open>
  C3. When the input, lowercased, trimmed and stripped of \<open>?\<close>, \<open>!\<close> and \<open>.\<close>, is one of
  the greetings or has fewer than three characters, and the clients of the pipeline can
  be built (the key pool is not empty and the vector store is cached or builds), the
  pipeline writes exactly three events, in this order: a sources event with the empty
  list, a chunk event with the canned greeting and an end event. It makes no call to
  the similarity search (or to the generation stream), and it returns. The clients are
  built before the input is looked at: when they cannot be built, the pipeline writes
  one error event and throws, whatever the input (\<open>resources_fail_error_event\<close>).
\<close>

theorem greeting_short_circuit:
  assumes "cleanInput userInput \<in> set greetings \<or> length (cleanInput userInput) < 3"
    and "resources_build keys env w"
    and "streamLegalAssistantResponse keys env userInput history w = (res, w')"
  shows "trace w' = trace w @ [Res_write (SourcesEvent []), Res_write (ChunkEvent greeting_text),
                               Res_write EndEvent]
       \<and> res = Inr (''Greeting'', [])"
proof -
  from assms(2) obtain k where "fst (getResources keys env w) = Inr k"
    using getResources_builds by blast
  with assms(3) assms(1) show ?thesis
    by (cases rule: streamLegalAssistantResponse_cases) simp_all
qed

theorem greeting_short_circuit_witness:
  "cleanInput demo_greeting \<in> set greetings
   \<and> resources_build [''k1''] demo_env demo_world
   \<and> trace (snd (streamLegalAssistantResponse [''k1''] demo_env demo_greeting [] demo_world))
       = [Res_write (SourcesEvent []), Res_write (ChunkEvent greeting_text), Res_write EndEvent]
   \<and> fst (streamLegalAssistantResponse [''k1''] demo_env demo_greeting [] demo_world)
       = Inr (''Greeting'', [])"
proof -
  have g: "cleanInput demo_greeting \<in> set greetings"
    by (simp add: demo_cleanInput_greeting greetings_def)
  then have "cleanInput demo_greeting \<in> set greetings \<or> length (cleanInput demo_greeting) < 3" ..
  from greeting_short_circuit [OF this demo_resources_build prod.collapse [symmetric]] g
    demo_resources_build
  show ?thesis by (simp add: demo_world_def)
qed

text \<open>
  C7. When the pipeline returns without an error, the events it has written are: one
  sources event, then the chunk events, then one end event, and nothing else. The chunk
  events carry the tokens of the generation stream in the order the stream yielded them
  (on the greeting path, the one canned greeting), and the sources event carries the
  citations that are returned.
\<close>

theorem successful_stream_event_order:
  assumes "streamLegalAssistantResponse keys env userInput history w = (Inr (answer, srcs), w')"
  shows "\<exists>new tokens. trace w' = trace w @ new
       \<and> events_of new = SourcesEvent srcs # map ChunkEvent tokens @ [EndEvent]
       \<and> ((tokens = [greeting_text] \<and> answer = ''Greeting'')
           \<or> (\<exists>k msgs. LLM_stream k msgs \<in> set new \<and> llm_stream env k msgs = Inr (tokens, None)
                 \<and> answer = concat tokens))"
using assms
proof (cases rule: streamLegalAssistantResponse_cases)
  case greeting
  let ?new = "[Res_write (SourcesEvent []), Res_write (ChunkEvent greeting_text), Res_write EndEvent]"
  show ?thesis
    by (rule exI [of _ ?new], rule exI [of _ "[greeting_text]"]) (use greeting in simp)
next
  case (completes results tokens k msgs)
  let ?new = "[SimilaritySearch (cleanQuery userInput) 4,
               Res_write (SourcesEvent (uniqueSources results)), LLM_stream k msgs]
              @ map (\<lambda>t. Res_write (ChunkEvent t)) tokens @ [Res_write EndEvent]"
  have e: "events_of ?new = SourcesEvent (uniqueSources results) # map ChunkEvent tokens @ [EndEvent]"
    by (simp add: events_of_chunks)
  have m: "LLM_stream k msgs \<in> set ?new" by simp
  show ?thesis
    by (rule exI [of _ ?new], rule exI [of _ tokens]) (use completes e m in auto)
qed simp_all

theorem successful_stream_event_order_witness:
  "events_of (trace (snd (streamLegalAssistantResponse [''k1''] demo_env
                            ''What is Section 302 IPC?'' [] demo_world)))
     = [SourcesEvent [\<lparr>case_title = ''A v B'', source_url = ''u2'', score = Num (7 / 10)\<rparr>],
        ChunkEvent ''Section 302 '', ChunkEvent ''punishes murder.'', EndEvent]"
proof -
  let ?run = "streamLegalAssistantResponse [''k1''] demo_env ''What is Section 302 IPC?'' [] demo_world"
  let ?srcs = "[\<lparr>case_title = ''A v B'', source_url = ''u2'', score = Num (7 / 10)\<rparr>]"
  have run: "?run = (Inr (''Section 302 punishes murder.'', ?srcs), snd ?run)"
    using demo_stream_result by (metis prod.collapse)
  from successful_stream_event_order [OF run] obtain new tokens where
    t: "trace (snd ?run) = trace demo_world @ new"
    and e: "events_of new = SourcesEvent ?srcs # map ChunkEvent tokens @ [EndEvent]"
    and c: "(tokens = [greeting_text] \<and> ''Section 302 punishes murder.'' = ''Greeting'')
           \<or> (\<exists>k msgs. LLM_stream k msgs \<in> set new \<and> llm_stream demo_env k msgs = Inr (tokens, None)
                 \<and> ''Section 302 punishes murder.'' = concat tokens)"
    by blast
  from c have "tokens = [''Section 302 '', ''punishes murder.'']"
    by (auto simp: demo_env_def)
  with t e show ?thesis by (simp add: demo_world_def)
qed

section \<open>Properties of the chat controller\<close>

text \<open>The outcome of the validation, in closed form.\<close>

lemma pre_sse_validation_closed:
  "pre_sse_validation env req w =
     (if findOne_rejects env then (Inl (store_error env), w)
      else if chats w (param_chatId req) = None \<and> create_rejects env then (Inl (store_error env), w)
      else
        (let c = found_or_created req w;
             w2 = w\<lparr>chats := (chats w)(param_chatId req \<mapsto> c), trace := trace w @ creation req w\<rparr>
         in if req_user req \<noteq> chat_user c then
              (Inr Responded,
               respond_json 401 \<lparr>json_message = ''Unauthorized'', json_success = None\<rparr> w2)
            else if findById_rejects env then (Inl (store_error env), w2)
            else (case users w (req_user req) of
                    None \<Rightarrow> (Inl type_error, w2)
                  | Some u \<Rightarrow>
                      if uses u \<ge> 10 then
                        (Inr Responded,
                         respond_json 403
                           \<lparr>json_message = ''User has exceeded the maximum number of uses'',
                            json_success = Some False\<rparr> w2)
                      else (Inr (Accepted c u), w2))))"
proof (cases "chats w (param_chatId req)")
  case None
  then show ?thesis
    by (simp add: pre_sse_validation_def Chats_findOne_def Chats_create_op_def User_findById_def
        found_or_created_def creation_def new_chat_def emit_def Let_def split: option.splits)
next
  case (Some c)
  then have "w\<lparr>chats := (chats w)(param_chatId req \<mapsto> c), trace := trace w @ []\<rparr> = w"
    by (simp add: fun_upd_idem)
  with Some show ?thesis
    by (simp add: pre_sse_validation_def Chats_findOne_def User_findById_def
        found_or_created_def creation_def Let_def split: option.splits)
qed

text \<open>
  The runs of \<open>updateChat\<close> on a request that passes validation: the five ways the
  exchange can go, with the trace and the stores each one ends in. \<open>w3\<close> is the world
  in which the pipeline starts, \<open>w4\<close> the world in which it stops.
\<close>

lemma updateChat_accepted_cases
  [consumes 3, case_names user_save_rejects chat_save1_rejects pipeline_throws chat_save2_rejects completed]:
  assumes "passes_validation env req w"
    and "body_userMessage req = Some m"
    and "users w (req_user req) = Some u"
  obtains
    (user_save_rejects)
      "user_save_rejects env"
      "trace (updateChat keys env req w) =
         creation req w @ sse_headers
         @ [Res_write (ErrorEvent (ErrorMessage ''An error occurred.'')), Res_end]"
      "users (updateChat keys env req w) = users w"
      "chats (updateChat keys env req w) = (chats w)(param_chatId req \<mapsto> found_or_created req w)"
      "headersSent (updateChat keys env req w)"
  | (chat_save1_rejects)
      "\<not> user_save_rejects env" "chat_save1_rejects env"
      "trace (updateChat keys env req w) =
         creation req w @ sse_headers @ [User_save (req_user req) (uses u + 1)]
         @ [Res_write (ErrorEvent (ErrorMessage ''An error occurred.'')), Res_end]"
      "users (updateChat keys env req w) = (users w)(req_user req \<mapsto> u\<lparr>uses := uses u + 1\<rparr>)"
      "chats (updateChat keys env req w) = (chats w)(param_chatId req \<mapsto> found_or_created req w)"
      "headersSent (updateChat keys env req w)"
  | (pipeline_throws) w3 e w4 where
      "\<not> user_save_rejects env" "\<not> chat_save1_rejects env"
      "trace w3 = creation req w @ sse_headers
                  @ [User_save (req_user req) (uses u + 1),
                     Chat_save (param_chatId req)
                       (chatHistory (found_or_created req w) @ [user_turn env m])]"
      "users w3 = (users w)(req_user req \<mapsto> u\<lparr>uses := uses u + 1\<rparr>)"
      "chats w3 = (chats w)(param_chatId req \<mapsto>
                    (found_or_created req w)
                      \<lparr>chatHistory := chatHistory (found_or_created req w) @ [user_turn env m]\<rparr>)"
      "streamLegalAssistantResponse keys env m
         (formattedHistory (chatHistory (found_or_created req w) @ [user_turn env m])) w3
         = (Inl e, w4)"
      "trace (updateChat keys env req w) =
         trace w4 @ [Res_write (ErrorEvent (ErrorMessage ''An error occurred.'')), Res_end]"
      "users (updateChat keys env req w) = users w4"
      "chats (updateChat keys env req w) = chats w4"
      "headersSent (updateChat keys env req w)"
      "vectorStoreInstance w3 = vectorStoreInstance w"
  | (chat_save2_rejects) w3 answer srcs w4 where
      "\<not> user_save_rejects env" "\<not> chat_save1_rejects env" "chat_save2_rejects env"
      "trace w3 = creation req w @ sse_headers
                  @ [User_save (req_user req) (uses u + 1),
                     Chat_save (param_chatId req)
                       (chatHistory (found_or_created req w) @ [user_turn env m])]"
      "users w3 = (users w)(req_user req \<mapsto> u\<lparr>uses := uses u + 1\<rparr>)"
      "chats w3 = (chats w)(param_chatId req \<mapsto>
                    (found_or_created req w)
                      \<lparr>chatHistory := chatHistory (found_or_created req w) @ [user_turn env m]\<rparr>)"
      "streamLegalAssistantResponse keys env m
         (formattedHistory (chatHistory (found_or_created req w) @ [user_turn env m])) w3
         = (Inr (answer, srcs), w4)"
      "trace (updateChat keys env req w) =
         trace w4 @ [Res_write (ErrorEvent (ErrorMessage ''An error occurred.'')), Res_end]"
      "users (updateChat keys env req w) = users w4"
      "chats (updateChat keys env req w) = chats w4"
      "headersSent (updateChat keys env req w)"
      "vectorStoreInstance w3 = vectorStoreInstance w"
  | (completed) w3 answer srcs w4 where
      "\<not> user_save_rejects env" "\<not> chat_save1_rejects env" "\<not> chat_save2_rejects env"
      "trace w3 = creation req w @ sse_headers
                  @ [User_save (req_user req) (uses u + 1),
                     Chat_save (param_chatId req)
                       (chatHistory (found_or_created req w) @ [user_turn env m])]"
      "users w3 = (users w)(req_user req \<mapsto> u\<lparr>uses := uses u + 1\<rparr>)"
      "chats w3 = (chats w)(param_chatId req \<mapsto>
                    (found_or_created req w)
                      \<lparr>chatHistory := chatHistory (found_or_created req w) @ [user_turn env m]\<rparr>)"
      "streamLegalAssistantResponse keys env m
         (formattedHistory (chatHistory (found_or_created req w) @ [user_turn env m])) w3
         = (Inr (answer, srcs), w4)"
      "trace (updateChat keys env req w) =
         trace w4
         @ [Chat_save (param_chatId req)
              (chatHistory (found_or_created req w)
               @ [user_turn env m, assistant_turn env answer srcs]),
            Res_end]"
      "users (updateChat keys env req w) = users w4"
      "chats (updateChat keys env req w) =
         (chats w4)(param_chatId req \<mapsto>
            (found_or_created req w)
              \<lparr>chatHistory := chatHistory (found_or_created req w)
                               @ [user_turn env m, assistant_turn env answer srcs]\<rparr>)"
      "headersSent (updateChat keys env req w)"
      "vectorStoreInstance w3 = vectorStoreInstance w"
proof -
  let ?c = "found_or_created req w"
  let ?w2 = "w\<lparr>chats := (chats w)(param_chatId req \<mapsto> ?c), headersSent := False,
               trace := creation req w\<rparr>"
  from assms have m: "m \<noteq> []" and valid: "request_valid env req w" and quota: "uses u < 10"
    by (auto simp: passes_validation_def request_valid_def Boolean_def)
  from valid have owner: "chat_user ?c = req_user req"
    by (auto simp: request_valid_def found_or_created_def new_chat_def split: option.splits)
  from valid assms(3) quota owner
  have v: "pre_sse_validation env req (new_response w) = (Inr (Accepted ?c u), ?w2)"
    by (auto simp: pre_sse_validation_closed request_valid_def new_response_def
        found_or_created_def creation_def Let_def split: option.splits)
  have body: "updateChat_try keys env req (new_response w) = sse_exchange keys env req m ?c u ?w2"
    using assms(2) m v by (simp add: updateChat_try_def)
  let ?u' = "u\<lparr>uses := uses u + 1\<rparr>"
  let ?h1 = "chatHistory ?c @ [user_turn env m]"
  let ?wa = "emit (User_save (req_user req) (uses ?u'))
               ((setup_sse ?w2)\<lparr>users := (users (setup_sse ?w2))(req_user req \<mapsto> ?u')\<rparr>)"
  let ?w3 = "emit (Chat_save (param_chatId req) ?h1)
               (?wa\<lparr>chats := (chats ?wa)(param_chatId req \<mapsto> ?c\<lparr>chatHistory := ?h1\<rparr>)\<rparr>)"
  have w3_trace: "trace ?w3 = creation req w @ sse_headers
                  @ [User_save (req_user req) (uses u + 1), Chat_save (param_chatId req) ?h1]"
    and w3_users: "users ?w3 = (users w)(req_user req \<mapsto> ?u')"
    and w3_chats: "chats ?w3 = (chats w)(param_chatId req \<mapsto> ?c\<lparr>chatHistory := ?h1\<rparr>)"
    and w3_sent: "headersSent ?w3"
    by (simp_all add: emit_def setup_sse_def sse_headers_def)
  show thesis
  proof (cases "user_save_rejects env")
    case True
    then have "sse_exchange keys env req m ?c u ?w2 = (Inl (store_error env), setup_sse ?w2)"
      by (simp add: sse_exchange_def user_save_def Let_def)
    with body have "updateChat keys env req w =
        emit Res_end (res_write (ErrorEvent (ErrorMessage ''An error occurred.'')) (setup_sse ?w2))"
      by (simp add: updateChat_def setup_sse_def)
    then show thesis
      using True user_save_rejects
      by (simp add: res_write_def emit_def setup_sse_def sse_headers_def)
  next
    case us: False
    show thesis
    proof (cases "chat_save1_rejects env")
      case True
      with us have "sse_exchange keys env req m ?c u ?w2 = (Inl (store_error env), ?wa)"
        by (simp add: sse_exchange_def user_save_def chat_save_def user_turn_def Let_def)
      with body have "updateChat keys env req w =
          emit Res_end (res_write (ErrorEvent (ErrorMessage ''An error occurred.'')) ?wa)"
        by (simp add: updateChat_def setup_sse_def emit_def)
      then show thesis
        using us True chat_save1_rejects
        by (simp add: res_write_def emit_def setup_sse_def sse_headers_def)
    next
      case cs1: False
      obtain sres w4 where run: "streamLegalAssistantResponse keys env m (formattedHistory ?h1) ?w3
          = (sres, w4)"
        by (cases "streamLegalAssistantResponse keys env m (formattedHistory ?h1) ?w3")
      then have hs: "headersSent w4"
        using w3_sent by (cases rule: streamLegalAssistantResponse_cases) simp_all
      have w3_cache: "vectorStoreInstance ?w3 = vectorStoreInstance w"
        by (simp add: emit_def setup_sse_def)
      have ex: "sse_exchange keys env req m ?c u ?w2 =
        (case sres of
           Inl e \<Rightarrow> (Inl e, w4)
         | Inr (answer, srcs) \<Rightarrow>
             (case chat_save (chat_save2_rejects env) env (param_chatId req)
                     (?c\<lparr>chatHistory := ?h1 @ [assistant_turn env answer srcs]\<rparr>) w4 of
                (Inl e, w5) \<Rightarrow> (Inl e, w5)
              | (Inr _, w5) \<Rightarrow> (Inr (), emit Res_end w5)))"
        using us cs1 run
        by (simp add: sse_exchange_def user_save_def chat_save_def user_turn_def
            assistant_turn_def Let_def split: sum.splits prod.splits)
      show thesis
      proof (cases sres)
        case (Inl e)
        with ex body hs have "updateChat keys env req w =
            emit Res_end (res_write (ErrorEvent (ErrorMessage ''An error occurred.'')) w4)"
          by (simp add: updateChat_def)
        then have "trace (updateChat keys env req w) =
            trace w4 @ [Res_write (ErrorEvent (ErrorMessage ''An error occurred.'')), Res_end]"
          "users (updateChat keys env req w) = users w4"
          "chats (updateChat keys env req w) = chats w4"
          "headersSent (updateChat keys env req w)"
          using hs by (simp_all add: res_write_def emit_def)
        with us cs1 run Inl w3_trace w3_users w3_chats w3_cache show thesis
          using pipeline_throws [of ?w3 e w4] by blast
      next
        case (Inr p)
        obtain answer srcs where p: "p = (answer, srcs)" by (cases p)
        show thesis
        proof (cases "chat_save2_rejects env")
          case True
          with ex body hs Inr p have "updateChat keys env req w =
              emit Res_end (res_write (ErrorEvent (ErrorMessage ''An error occurred.'')) w4)"
            by (simp add: updateChat_def chat_save_def)
          then have "trace (updateChat keys env req w) =
              trace w4 @ [Res_write (ErrorEvent (ErrorMessage ''An error occurred.'')), Res_end]"
            "users (updateChat keys env req w) = users w4"
            "chats (updateChat keys env req w) = chats w4"
            "headersSent (updateChat keys env req w)"
            using hs by (simp_all add: res_write_def emit_def)
          with us cs1 True run Inr p w3_trace w3_users w3_chats w3_cache show thesis
            using chat_save2_rejects [of ?w3 answer srcs w4] by blast
        next
          case False
          let ?h2 = "chatHistory ?c @ [user_turn env m, assistant_turn env answer srcs]"
          from False ex body Inr p have "updateChat keys env req w =
              emit Res_end (emit (Chat_save (param_chatId req) ?h2)
                (w4\<lparr>chats := (chats w4)(param_chatId req \<mapsto> ?c\<lparr>chatHistory := ?h2\<rparr>)\<rparr>))"
            by (simp add: updateChat_def chat_save_def)
          then have "trace (updateChat keys env req w) =
              trace w4 @ [Chat_save (param_chatId req) ?h2, Res_end]"
            "users (updateChat keys env req w) = users w4"
            "chats (updateChat keys env req w) =
               (chats w4)(param_chatId req \<mapsto> ?c\<lparr>chatHistory := ?h2\<rparr>)"
            "headersSent (updateChat keys env req w)"
            using hs by (simp_all add: emit_def)
          with us cs1 False run Inr p w3_trace w3_users w3_chats w3_cache show thesis
            using completed [of ?w3 answer srcs w4] by blast
        qed
      qed
    qed
  qed
qed

text \<open>What the pipeline leaves alone, and what it has written when it returns.\<close>

lemma stream_frame:
  assumes "streamLegalAssistantResponse keys env userInput history w = (res, w')"
  shows "\<exists>snew. trace w' = trace w @ snew \<and> users w' = users w \<and> chats w' = chats w
           \<and> headersSent w' = headersSent w
           \<and> (\<forall>x \<in> set snew. is_pipeline_action x)
           \<and> (\<forall>answer srcs. res = Inr (answer, srcs) \<longrightarrow>
                 (\<exists>tokens. events_of snew = SourcesEvent srcs # map ChunkEvent tokens @ [EndEvent]
                    \<and> (answer = concat tokens \<or> (answer = ''Greeting'' \<and> tokens = [greeting_text]))))"
using assms
proof (cases rule: streamLegalAssistantResponse_cases)
  case (resources_fail e)
  then show ?thesis by simp
next
  case (greeting k)
  let ?new = "[Res_write (SourcesEvent []), Res_write (ChunkEvent greeting_text),
               Res_write EndEvent]"
  have t: "\<exists>tokens. events_of ?new = SourcesEvent [] # map ChunkEvent tokens @ [EndEvent]
             \<and> (''Greeting'' = concat tokens \<or> (''Greeting'' = ''Greeting'' \<and> tokens = [greeting_text]))"
    by (rule exI [of _ "[greeting_text]"]) simp
  have p: "\<forall>x \<in> set ?new. is_pipeline_action x" by simp
  show ?thesis
  proof (intro exI [of _ ?new] conjI allI impI)
    fix answer srcs assume "res = Inr (answer, srcs)"
    with greeting(2) have "answer = ''Greeting''" "srcs = []" by simp_all
    with t show "\<exists>tokens. events_of ?new = SourcesEvent srcs # map ChunkEvent tokens @ [EndEvent]
                   \<and> (answer = concat tokens \<or> (answer = ''Greeting'' \<and> tokens = [greeting_text]))"
      by simp
  qed (use greeting p in simp_all)
next
  case (search_fails e k)
  then show ?thesis by simp
next
  case (llm_rejects results e k msgs)
  then show ?thesis by simp
next
  case (stream_throws results tokens e k msgs)
  then show ?thesis by auto
next
  case (completes results tokens k msgs)
  let ?new = "[SimilaritySearch (cleanQuery userInput) 4,
               Res_write (SourcesEvent (uniqueSources results)), LLM_stream k msgs]
              @ map (\<lambda>t. Res_write (ChunkEvent t)) tokens @ [Res_write EndEvent]"
  have e: "events_of ?new = SourcesEvent (uniqueSources results) # map ChunkEvent tokens @ [EndEvent]"
    by (simp add: events_of_chunks)
  have p: "\<forall>x \<in> set ?new. is_pipeline_action x" by auto
  show ?thesis
  proof (intro exI [of _ ?new] conjI allI impI)
    fix answer srcs assume "res = Inr (answer, srcs)"
    with completes(6) have a: "answer = concat tokens" "srcs = uniqueSources results" by simp_all
    show "\<exists>tokens. events_of ?new = SourcesEvent srcs # map ChunkEvent tokens @ [EndEvent]
            \<and> (answer = concat tokens \<or> (answer = ''Greeting'' \<and> tokens = [greeting_text]))"
      by (rule exI [of _ tokens]) (use a e in simp)
  qed (use completes p in simp_all)
qed

lemma pipeline_action_kinds:
  "is_pipeline_action x \<Longrightarrow>
     \<not> saves_assistant_turn x \<and> \<not> is_User_save x \<and> x \<noteq> Res_end"
  by (cases x) simp_all

lemma creation_kinds:
  "x \<in> set (creation req w) \<Longrightarrow>
     \<not> saves_assistant_turn x \<and> \<not> is_User_save x \<and> \<not> is_retrieval_or_generation x
     \<and> \<not> is_streaming_action x \<and> \<not> is_pipeline_action x"
  by (auto simp: creation_def split: option.splits)

lemma events_of_no_writes: "\<forall>x \<in> set xs. \<not> is_streaming_action x \<Longrightarrow> events_of xs = []"
  by (induction xs rule: events_of.induct) simp_all

lemma events_of_append: "events_of (xs @ ys) = events_of xs @ events_of ys"
  by (induction xs rule: events_of.induct) simp_all

text \<open>
  Where an action of some kind can stand in a trace whose front part holds no action of
  that kind.
\<close>

lemma split_behind_front:
  assumes "xs @ ys = pre @ a # post" and "Q a" and "\<forall>x \<in> set xs. \<not> Q x"
  shows "\<exists>mid. pre = xs @ mid \<and> ys = mid @ a # post"
using assms
proof (induction xs arbitrary: pre)
  case Nil
  then show ?case by simp
next
  case (Cons x xs)
  show ?case
  proof (cases pre)
    case Nil
    with Cons.prems show ?thesis by simp
  next
    case (Cons p pre')
    with Cons.prems have "xs @ ys = pre' @ a # post" "p = x" by simp_all
    with Cons.IH [of pre'] Cons.prems(2,3) obtain mid where "pre' = xs @ mid" "ys = mid @ a # post"
      by auto
    with Cons \<open>p = x\<close> show ?thesis by simp
  qed
qed

text \<open>The runs of \<open>updateChat\<close> on a request that does not pass validation.\<close>

lemma updateChat_rejected:
  assumes "\<not> passes_validation env req w"
  shows "\<exists>pre code body. trace (updateChat keys env req w) = pre @ [Res_status_json code body]
           \<and> (pre = [] \<or> pre = creation req w)
           \<and> code \<in> {400, 401, 403, 500}
           \<and> users (updateChat keys env req w) = users w
           \<and> (request_valid env req w \<and> users w (req_user req) \<noteq> None \<longrightarrow>
                 pre = creation req w \<and> code = 403 \<and> body = quota_body)"
proof (cases "Boolean (body_userMessage req)")
  case False
  then have "updateChat keys env req w =
      respond_json 400 \<lparr>json_message = ''User message is required'', json_success = None\<rparr>
        (new_response w)"
    by (auto simp: updateChat_def updateChat_try_def Boolean_def split: option.splits)
  with False show ?thesis
    by (simp add: respond_json_def emit_def new_response_def request_valid_def)
next
  case True
  then obtain m where m: "body_userMessage req = Some m" "m \<noteq> []"
    by (auto simp: Boolean_def split: option.splits)
  let ?w2 = "(new_response w)\<lparr>chats := (chats w)(param_chatId req \<mapsto> found_or_created req w),
                              trace := creation req w\<rparr>"
  have nr: "chats (new_response w) = chats w" "users (new_response w) = users w"
    "trace (new_response w) = []" "\<not> headersSent (new_response w)"
    "found_or_created req (new_response w) = found_or_created req w"
    "creation req (new_response w) = creation req w"
    by (simp_all add: new_response_def found_or_created_def creation_def)
  have rv: "request_valid env req w"
    if "\<not> findOne_rejects env" "\<not> (chats w (param_chatId req) = None \<and> create_rejects env)"
      "req_user req = chat_user (found_or_created req w)" "\<not> findById_rejects env"
    using that True
    by (auto simp: request_valid_def found_or_created_def split: option.splits)
  have rvD: "\<not> findOne_rejects env \<and> \<not> (chats w (param_chatId req) = None \<and> create_rejects env)
             \<and> req_user req = chat_user (found_or_created req w) \<and> \<not> findById_rejects env"
    if "request_valid env req w"
    using that
    by (cases "chats w (param_chatId req)")
       (simp_all add: request_valid_def found_or_created_def new_chat_def)
  have quota_case: "10 \<le> uses u" if "request_valid env req w" "users w (req_user req) = Some u" for u
    using that assms by (simp add: passes_validation_def)
  consider
      (store) "findOne_rejects env \<or> (chats w (param_chatId req) = None \<and> create_rejects env)"
    | (owner) "\<not> findOne_rejects env" "\<not> (chats w (param_chatId req) = None \<and> create_rejects env)"
        "req_user req \<noteq> chat_user (found_or_created req w)"
    | (find_user) "\<not> findOne_rejects env" "\<not> (chats w (param_chatId req) = None \<and> create_rejects env)"
        "req_user req = chat_user (found_or_created req w)" "findById_rejects env"
    | (no_user) "request_valid env req w" "users w (req_user req) = None"
    | (quota) u where "request_valid env req w" "users w (req_user req) = Some u" "10 \<le> uses u"
  proof (cases "findOne_rejects env \<or> (chats w (param_chatId req) = None \<and> create_rejects env)")
    case True
    then show thesis using store by blast
  next
    case ok: False
    show thesis
    proof (cases "req_user req \<noteq> chat_user (found_or_created req w)")
      case True
      with ok show thesis using owner by blast
    next
      case own: False
      show thesis
      proof (cases "findById_rejects env")
        case True
        with ok own show thesis using find_user by blast
      next
        case False
        with ok own have v: "request_valid env req w" using rv by blast
        show thesis
        proof (cases "users w (req_user req)")
          case None
          with v show thesis using no_user by blast
        next
          case (Some u)
          with v quota_case [OF v Some] show thesis using quota by blast
        qed
      qed
    qed
  qed
  then show ?thesis
  proof cases
    case store
    then have "pre_sse_validation env req (new_response w) = (Inl (store_error env), new_response w)"
      by (auto simp: pre_sse_validation_closed nr)
    with m have "updateChat keys env req w =
        respond_json 500 \<lparr>json_message = ''Internal Server Error'', json_success = None\<rparr>
          (new_response w)"
      by (simp add: updateChat_def updateChat_try_def nr)
    moreover from store have "\<not> request_valid env req w"
      using rvD by blast
    ultimately show ?thesis
      by (simp add: respond_json_def emit_def nr)
  next
    case owner
    then have "pre_sse_validation env req (new_response w) =
        (Inr Responded,
         respond_json 401 \<lparr>json_message = ''Unauthorized'', json_success = None\<rparr> ?w2)"
      by (auto simp: pre_sse_validation_closed nr Let_def)
    with m have "updateChat keys env req w =
        respond_json 401 \<lparr>json_message = ''Unauthorized'', json_success = None\<rparr> ?w2"
      by (simp add: updateChat_def updateChat_try_def)
    moreover from owner have "\<not> request_valid env req w"
      using rvD by blast
    ultimately show ?thesis
      by (simp add: respond_json_def emit_def nr)
  next
    case find_user
    then have "pre_sse_validation env req (new_response w) = (Inl (store_error env), ?w2)"
      by (auto simp: pre_sse_validation_closed nr Let_def)
    with m have "updateChat keys env req w =
        respond_json 500 \<lparr>json_message = ''Internal Server Error'', json_success = None\<rparr> ?w2"
      by (simp add: updateChat_def updateChat_try_def nr)
    moreover from find_user have "\<not> request_valid env req w"
      using rvD by blast
    ultimately show ?thesis
      by (simp add: respond_json_def emit_def nr)
  next
    case no_user
    with rvD have "pre_sse_validation env req (new_response w) = (Inl type_error, ?w2)"
      by (auto simp: pre_sse_validation_closed nr Let_def)
    with m have "updateChat keys env req w =
        respond_json 500 \<lparr>json_message = ''Internal Server Error'', json_success = None\<rparr> ?w2"
      by (simp add: updateChat_def updateChat_try_def nr)
    with no_user show ?thesis
      by (simp add: respond_json_def emit_def nr)
  next
    case (quota u)
    with rvD have "pre_sse_validation env req (new_response w) =
        (Inr Responded, respond_json 403 quota_body ?w2)"
      by (auto simp: pre_sse_validation_closed nr Let_def quota_body_def)
    with m have "updateChat keys env req w = respond_json 403 quota_body ?w2"
      by (simp add: updateChat_def updateChat_try_def)
    then show ?thesis
      by (simp add: respond_json_def emit_def nr)
  qed
qed

lemma no_occurrence: "tr = pre @ a # post \<Longrightarrow> Q a \<Longrightarrow> \<forall>x \<in> set tr. \<not> Q x \<Longrightarrow> False"
  by auto

lemma sse_headers_kinds:
  "x \<in> set sse_headers \<Longrightarrow>
     \<not> saves_assistant_turn x \<and> \<not> is_User_save x \<and> \<not> is_retrieval_or_generation x
     \<and> is_streaming_action x"
  by (auto simp: sse_headers_def)

lemma pipeline_not_status: "is_pipeline_action x \<Longrightarrow> x \<noteq> Res_status_json code body"
  by (cases x) simp_all

text \<open>
  On a request that passes validation, retrieval and generation start only behind the
  front of the trace: the creation of the chat if it was absent, the headers, the saved
  usage count and the saved user turn.
\<close>

lemma accepted_front:
  assumes "passes_validation env req w" and "body_userMessage req = Some m"
    and "users w (req_user req) = Some u"
    and "trace (updateChat keys env req w) = pre @ a # post"
    and "is_retrieval_or_generation a"
  shows "\<exists>mid. pre = creation req w @ sse_headers
                  @ [User_save (req_user req) (uses u + 1),
                     Chat_save (param_chatId req)
                       (chatHistory (found_or_created req w) @ [user_turn env m])]
                  @ mid"
proof -
  let ?front = "creation req w @ sse_headers
                  @ [User_save (req_user req) (uses u + 1),
                     Chat_save (param_chatId req)
                       (chatHistory (found_or_created req w) @ [user_turn env m])]"
  let ?err = "Res_write (ErrorEvent (ErrorMessage ''An error occurred.''))"
  have front: "\<forall>x \<in> set ?front. \<not> is_retrieval_or_generation x"
    using creation_kinds sse_headers_kinds by auto
  have behind: ?thesis if "trace (updateChat keys env req w) = ?front @ rest" for rest
  proof -
    from that assms(4) have "?front @ rest = pre @ a # post" by simp
    from split_behind_front [OF this, of is_retrieval_or_generation] assms(5) front
    show ?thesis by auto
  qed
  from assms(1-3) show ?thesis
  proof (cases rule: updateChat_accepted_cases [where keys = keys])
    case user_save_rejects
    have "\<forall>x \<in> set (trace (updateChat keys env req w)). \<not> is_retrieval_or_generation x"
      using creation_kinds sse_headers_kinds by (auto simp: user_save_rejects(2))
    with no_occurrence [OF assms(4), of is_retrieval_or_generation] assms(5) show ?thesis by blast
  next
    case chat_save1_rejects
    have "\<forall>x \<in> set (trace (updateChat keys env req w)). \<not> is_retrieval_or_generation x"
      using creation_kinds sse_headers_kinds by (auto simp: chat_save1_rejects(3))
    with no_occurrence [OF assms(4), of is_retrieval_or_generation] assms(5) show ?thesis by blast
  next
    case (pipeline_throws w3 e w4)
    from stream_frame [OF pipeline_throws(6)] obtain snew where "trace w4 = trace w3 @ snew"
      by blast
    with pipeline_throws(3,7) show ?thesis using behind [of "snew @ [?err, Res_end]"] by simp
  next
    case (chat_save2_rejects w3 answer srcs w4)
    from stream_frame [OF chat_save2_rejects(7)] obtain snew where "trace w4 = trace w3 @ snew"
      by blast
    with chat_save2_rejects(4,8) show ?thesis using behind [of "snew @ [?err, Res_end]"] by simp
  next
    case (completed w3 answer srcs w4)
    from stream_frame [OF completed(7)] obtain snew where "trace w4 = trace w3 @ snew"
      by blast
    with completed(4,8) show ?thesis
      using behind [of "snew @ [Chat_save (param_chatId req)
              (chatHistory (found_or_created req w)
               @ [user_turn env m, assistant_turn env answer srcs]), Res_end]"]
      by simp
  qed
qed

text \<open>
  On a request that passes validation, the only place where an assistant turn is saved is
  the end of a completed exchange.
\<close>

lemma assistant_save_position:
  assumes "passes_validation env req w" and "body_userMessage req = Some m"
    and "users w (req_user req) = Some u"
    and "trace (updateChat keys env req w) = pre @ a # post"
    and "saves_assistant_turn a"
  shows "\<exists>answer srcs tokens.
           a = Chat_save (param_chatId req)
                 (chatHistory (found_or_created req w)
                  @ [user_turn env m, assistant_turn env answer srcs])
         \<and> events_of pre = SourcesEvent srcs # map ChunkEvent tokens @ [EndEvent]
         \<and> (answer = concat tokens \<or> (answer = ''Greeting'' \<and> tokens = [greeting_text]))
         \<and> post = [Res_end]
         \<and> chats (updateChat keys env req w) (param_chatId req)
             = Some ((found_or_created req w)
                      \<lparr>chatHistory := chatHistory (found_or_created req w)
                                       @ [user_turn env m, assistant_turn env answer srcs]\<rparr>)"
proof -
  let ?front = "creation req w @ sse_headers
                  @ [User_save (req_user req) (uses u + 1),
                     Chat_save (param_chatId req)
                       (chatHistory (found_or_created req w) @ [user_turn env m])]"
  let ?err = "Res_write (ErrorEvent (ErrorMessage ''An error occurred.''))"
  have front: "\<forall>x \<in> set ?front. \<not> saves_assistant_turn x"
    using creation_kinds sse_headers_kinds by (auto simp: user_turn_def)
  have front_events: "events_of ?front = []"
  proof -
    have "events_of (creation req w) = []"
      using creation_kinds by (intro events_of_no_writes) blast
    then show ?thesis by (simp add: events_of_append sse_headers_def)
  qed
  have nowhere: False if "\<forall>x \<in> set (trace (updateChat keys env req w)). \<not> saves_assistant_turn x"
    using no_occurrence [OF assms(4), of saves_assistant_turn] assms(5) that by blast
  from assms(1-3) show ?thesis
  proof (cases rule: updateChat_accepted_cases [where keys = keys])
    case user_save_rejects
    have "\<forall>x \<in> set (trace (updateChat keys env req w)). \<not> saves_assistant_turn x"
      using creation_kinds sse_headers_kinds by (auto simp: user_save_rejects(2))
    with nowhere show ?thesis by blast
  next
    case chat_save1_rejects
    have "\<forall>x \<in> set (trace (updateChat keys env req w)). \<not> saves_assistant_turn x"
      using creation_kinds sse_headers_kinds by (auto simp: chat_save1_rejects(3))
    with nowhere show ?thesis by blast
  next
    case (pipeline_throws w3 e w4)
    from stream_frame [OF pipeline_throws(6)] obtain snew
      where s: "trace w4 = trace w3 @ snew" "\<forall>x \<in> set snew. is_pipeline_action x"
      by blast
    have "\<forall>x \<in> set (trace (updateChat keys env req w)). \<not> saves_assistant_turn x"
      using front s pipeline_action_kinds by (auto simp: pipeline_throws(3,7))
    with nowhere show ?thesis by blast
  next
    case (chat_save2_rejects w3 answer srcs w4)
    from stream_frame [OF chat_save2_rejects(7)] obtain snew
      where s: "trace w4 = trace w3 @ snew" "\<forall>x \<in> set snew. is_pipeline_action x"
      by blast
    have "\<forall>x \<in> set (trace (updateChat keys env req w)). \<not> saves_assistant_turn x"
      using front s pipeline_action_kinds by (auto simp: chat_save2_rejects(4,8))
    with nowhere show ?thesis by blast
  next
    case (completed w3 answer srcs w4)
    let ?save = "Chat_save (param_chatId req)
              (chatHistory (found_or_created req w)
               @ [user_turn env m, assistant_turn env answer srcs])"
    from stream_frame [OF completed(7)] obtain snew tokens
      where s: "trace w4 = trace w3 @ snew" "\<forall>x \<in> set snew. is_pipeline_action x"
        and ev: "events_of snew = SourcesEvent srcs # map ChunkEvent tokens @ [EndEvent]"
          "answer = concat tokens \<or> (answer = ''Greeting'' \<and> tokens = [greeting_text])"
      by blast
    have none: "\<forall>x \<in> set (trace w4). \<not> saves_assistant_turn x"
      using front s pipeline_action_kinds by (auto simp: completed(4))
    from completed(8) assms(4) have "trace w4 @ [?save, Res_end] = pre @ a # post" by simp
    from split_behind_front [OF this, of saves_assistant_turn] assms(5) none
    obtain mid where mid: "pre = trace w4 @ mid" "[?save, Res_end] = mid @ a # post" by blast
    from mid(2) assms(5) have m3: "mid = []" "a = ?save" "post = [Res_end]"
      by (cases mid; cases "tl mid"; auto)+
    have "events_of pre = SourcesEvent srcs # map ChunkEvent tokens @ [EndEvent]"
      using mid(1) m3(1) s(1) completed(4) front_events ev(1) by (simp add: events_of_append)
    with m3 ev(2) completed(10) show ?thesis by auto
  qed
qed

text \<open>
  On a request that passes validation, the saves completing, the steps of \<open>updateChat\<close>
  up to the call of the pipeline: the validation, the save of the usage count and the
  save of the user turn. \<open>w3\<close> is the world in which the pipeline starts.
\<close>

lemma pipeline_entry:
  assumes "passes_validation env req w" and "body_userMessage req = Some m"
    and "users w (req_user req) = Some u"
    and "\<not> user_save_rejects env" and "\<not> chat_save1_rejects env"
  shows "\<exists>w1 w2 w3.
           pre_sse_validation env req (new_response w)
             = (Inr (Accepted (found_or_created req w) u), w1)
         \<and> user_save env (req_user req) (u\<lparr>uses := uses u + 1\<rparr>) (setup_sse w1) = (Inr (), w2)
         \<and> chat_save (chat_save1_rejects env) env (param_chatId req)
              ((found_or_created req w)
                 \<lparr>chatHistory := chatHistory (found_or_created req w) @ [user_turn env m]\<rparr>) w2
             = (Inr (), w3)
         \<and> chats w3 (param_chatId req)
             = Some ((found_or_created req w)
                      \<lparr>chatHistory := chatHistory (found_or_created req w) @ [user_turn env m]\<rparr>)
         \<and> trace w3 = creation req w @ sse_headers
                      @ [User_save (req_user req) (uses u + 1),
                         Chat_save (param_chatId req)
                           (chatHistory (found_or_created req w) @ [user_turn env m])]"
proof -
  let ?c = "found_or_created req w"
  let ?w1 = "w\<lparr>chats := (chats w)(param_chatId req \<mapsto> ?c), headersSent := False,
               trace := creation req w\<rparr>"
  let ?u' = "u\<lparr>uses := uses u + 1\<rparr>"
  let ?c1 = "?c\<lparr>chatHistory := chatHistory ?c @ [user_turn env m]\<rparr>"
  from assms have valid: "request_valid env req w" and quota: "uses u < 10"
    by (auto simp: passes_validation_def)
  from valid have owner: "chat_user ?c = req_user req"
    by (auto simp: request_valid_def found_or_created_def new_chat_def split: option.splits)
  from valid assms(3) quota owner
  have v: "pre_sse_validation env req (new_response w) = (Inr (Accepted ?c u), ?w1)"
    by (auto simp: pre_sse_validation_closed request_valid_def new_response_def
        found_or_created_def creation_def Let_def split: option.splits)
  obtain w2 where us: "user_save env (req_user req) ?u' (setup_sse ?w1) = (Inr (), w2)"
    and w2: "trace w2 = creation req w @ sse_headers @ [User_save (req_user req) (uses u + 1)]"
    using assms(4) by (simp add: user_save_def emit_def setup_sse_def sse_headers_def)
  obtain w3 where cs: "chat_save (chat_save1_rejects env) env (param_chatId req) ?c1 w2
        = (Inr (), w3)"
    and w3: "chats w3 (param_chatId req) = Some ?c1"
      "trace w3 = trace w2 @ [Chat_save (param_chatId req) (chatHistory ?c @ [user_turn env m])]"
    using assms(5) by (simp add: chat_save_def emit_def)
  from v us cs w3 w2 show ?thesis by simp
qed

text \<open>
  When a retrieval or generation call stands in the trace, the two saves before the
  pipeline have completed, and the conversation stored when the request ends holds the
  user turn.
\<close>

lemma pipeline_started:
  assumes "passes_validation env req w" and "body_userMessage req = Some m"
    and "users w (req_user req) = Some u"
    and "trace (updateChat keys env req w) = pre @ a # post"
    and "is_retrieval_or_generation a"
  shows "\<not> user_save_rejects env \<and> \<not> chat_save1_rejects env
       \<and> (\<exists>c' rest. chats (updateChat keys env req w) (param_chatId req) = Some c'
             \<and> chatHistory c' = chatHistory (found_or_created req w) @ user_turn env m # rest
             \<and> (rest = [] \<or> (\<exists>answer srcs. rest = [assistant_turn env answer srcs])))"
proof -
  let ?c = "found_or_created req w"
  let ?c1 = "?c\<lparr>chatHistory := chatHistory ?c @ [user_turn env m]\<rparr>"
  have stored: "\<exists>c' rest. chats (updateChat keys env req w) (param_chatId req) = Some c'
             \<and> chatHistory c' = chatHistory ?c @ user_turn env m # rest
             \<and> (rest = [] \<or> (\<exists>answer srcs. rest = [assistant_turn env answer srcs]))"
    if "chats (updateChat keys env req w) (param_chatId req) = Some ?c1"
    by (rule exI [of _ ?c1], rule exI [of _ "[]"]) (use that in simp)
  from assms(1-3) show ?thesis
  proof (cases rule: updateChat_accepted_cases [where keys = keys])
    case user_save_rejects
    have "\<forall>x \<in> set (trace (updateChat keys env req w)). \<not> is_retrieval_or_generation x"
      using creation_kinds sse_headers_kinds by (auto simp: user_save_rejects(2))
    with no_occurrence [OF assms(4), of is_retrieval_or_generation] assms(5) show ?thesis by blast
  next
    case chat_save1_rejects
    have "\<forall>x \<in> set (trace (updateChat keys env req w)). \<not> is_retrieval_or_generation x"
      using creation_kinds sse_headers_kinds by (auto simp: chat_save1_rejects(3))
    with no_occurrence [OF assms(4), of is_retrieval_or_generation] assms(5) show ?thesis by blast
  next
    case (pipeline_throws w3 e w4)
    from stream_frame [OF pipeline_throws(6)] have "chats w4 = chats w3" by blast
    with pipeline_throws(5,9)
    have "chats (updateChat keys env req w) (param_chatId req) = Some ?c1" by simp
    with stored pipeline_throws(1,2) show ?thesis by blast
  next
    case (chat_save2_rejects w3 answer srcs w4)
    from stream_frame [OF chat_save2_rejects(7)] have "chats w4 = chats w3" by blast
    with chat_save2_rejects(6,10)
    have "chats (updateChat keys env req w) (param_chatId req) = Some ?c1" by simp
    with stored chat_save2_rejects(1,2) show ?thesis by blast
  next
    case (completed w3 answer srcs w4)
    let ?c2 = "?c\<lparr>chatHistory := chatHistory ?c @ [user_turn env m, assistant_turn env answer srcs]\<rparr>"
    from completed(10)
    have "chats (updateChat keys env req w) (param_chatId req) = Some ?c2" by simp
    then have "\<exists>c' rest. chats (updateChat keys env req w) (param_chatId req) = Some c'
             \<and> chatHistory c' = chatHistory ?c @ user_turn env m # rest
             \<and> (rest = [] \<or> (\<exists>answer srcs. rest = [assistant_turn env answer srcs]))"
      by (intro exI [of _ ?c2] exI [of _ "[assistant_turn env answer srcs]"]) auto
    with completed(1,2) show ?thesis by blast
  qed
qed

section \<open>Properties of one request\<close>

lemmas run_defs =
  updateChat_def updateChat_try_def pre_sse_validation_closed sse_exchange_def new_response_def
  demo_request_def demo_world_def found_or_created_def creation_def new_chat_def setup_sse_def
  user_save_def chat_save_def emit_def res_write_def respond_json_def
  streamLegalAssistantResponse_def stream_catch_def greetings_def getResources_def
  groq_client_def new_ChatGroq_def createGroqLLM_def getNextGroqApiKey_def failures_of_def rotor_init_def stream_chunks_result
  Let_def Boolean_def formattedHistory_def

lemma demo_env_fields:
  "findOne_rejects demo_env = False" "create_rejects demo_env = False"
  "findById_rejects demo_env = False" "user_save_rejects demo_env = False"
  "chat_save1_rejects demo_env = False" "chat_save2_rejects demo_env = False"
  "vector_store_init demo_env = None"
  "similaritySearchWithScore demo_env q k = Inr demo_results"
  "llm_stream demo_env key msgs = Inr ([''Section 302 '', ''punishes murder.''], None)"
  "now1 demo_env = 1000" "now2 demo_env = 1001"
  by (simp_all add: demo_env_def)

lemma demo_env_stream_fails_fields:
  "findOne_rejects demo_env_stream_fails = False" "create_rejects demo_env_stream_fails = False"
  "findById_rejects demo_env_stream_fails = False" "user_save_rejects demo_env_stream_fails = False"
  "chat_save1_rejects demo_env_stream_fails = False"
  "vector_store_init demo_env_stream_fails = None"
  "similaritySearchWithScore demo_env_stream_fails q k = Inr demo_results"
  "llm_stream demo_env_stream_fails key msgs = Inr ([''Section 302 ''], Some demo_error)"
  "now1 demo_env_stream_fails = 1000" "now2 demo_env_stream_fails = 1001"
  by (simp_all add: demo_env_stream_fails_def demo_env_def)

lemma demo_passes_validation:
  "passes_validation demo_env (demo_request ''u1'' msg) demo_world \<longleftrightarrow> msg \<noteq> []"
  "passes_validation demo_env_stream_fails (demo_request ''u1'' msg) demo_world \<longleftrightarrow> msg \<noteq> []"
  by (simp_all add: passes_validation_def request_valid_def demo_request_def demo_world_def
      demo_env_fields demo_env_stream_fails_fields Boolean_def)

lemma demo_question_trace:
  "trace (updateChat [''k1''] demo_env (demo_request ''u1'' ''What is Section 302 IPC?'') demo_world)
     = [Chats_create ''c1'' ''u1'',
        Res_setHeader ''Content-Type'' ''text/event-stream'',
        Res_setHeader ''Cache-Control'' ''no-cache'',
        Res_setHeader ''Connection'' ''keep-alive'',
        Res_flushHeaders,
        User_save ''u1'' 10,
        Chat_save ''c1'' [user_turn demo_env ''What is Section 302 IPC?''],
        SimilaritySearch (cleanQuery ''What is Section 302 IPC?'') 4,
        Res_write (SourcesEvent
          [\<lparr>case_title = ''A v B'', source_url = ''u2'', score = Num (7 / 10)\<rparr>]),
        LLM_stream (Some ''k1'')
          (messages demo_env demo_results [] ''What is Section 302 IPC?''),
        Res_write (ChunkEvent ''Section 302 ''),
        Res_write (ChunkEvent ''punishes murder.''),
        Res_write EndEvent,
        Chat_save ''c1''
          [user_turn demo_env ''What is Section 302 IPC?'',
           assistant_turn demo_env ''Section 302 punishes murder.''
             [\<lparr>case_title = ''A v B'', source_url = ''u2'', score = Num (7 / 10)\<rparr>]],
        Res_end]"
  by (simp add: run_defs demo_env_fields demo_cleanInput_question demo_uniqueSources
      user_turn_def assistant_turn_def)

lemma demo_stream_fails_run:
  "trace (updateChat [''k1''] demo_env_stream_fails
            (demo_request ''u1'' ''What is Section 302 IPC?'') demo_world)
     = [Chats_create ''c1'' ''u1'',
        Res_setHeader ''Content-Type'' ''text/event-stream'',
        Res_setHeader ''Cache-Control'' ''no-cache'',
        Res_setHeader ''Connection'' ''keep-alive'',
        Res_flushHeaders,
        User_save ''u1'' 10,
        Chat_save ''c1'' [user_turn demo_env_stream_fails ''What is Section 302 IPC?''],
        SimilaritySearch (cleanQuery ''What is Section 302 IPC?'') 4,
        Res_write (SourcesEvent
          [\<lparr>case_title = ''A v B'', source_url = ''u2'', score = Num (7 / 10)\<rparr>]),
        LLM_stream (Some ''k1'')
          (messages demo_env_stream_fails demo_results [] ''What is Section 302 IPC?''),
        Res_write (ChunkEvent ''Section 302 ''),
        Res_write (ErrorEvent (ErrorText ''Internal Server Error'')),
        Res_write (ErrorEvent (ErrorMessage ''An error occurred.'')),
        Res_end]"
  by (simp add: run_defs demo_env_stream_fails_fields demo_cleanInput_question demo_uniqueSources
      user_turn_def)

text \<open>
  C4. For a user whose stored usage count is 10 or more, \<open>updateChat\<close> never opens the
  event stream: the trace holds no \<open>setHeader\<close>, no \<open>flushHeaders\<close>, no \<open>write\<close> and no
  \<open>end\<close> on the response and no call of the pipeline, the usage store is left as it
  was, and the only response is one JSON failure response (status 400, 401, 403 or
  500), the last action of the request; when the request is otherwise valid it is the
  403 response "User has exceeded the maximum number of uses". For a user whose count is 9, an otherwise valid
  request is let through (the headers are flushed and the usage count is saved right
  after), and, the save of the user document completing, the stored count is 10 when
  the request ends, whatever happens later in the request.
\<close>

theorem usage_quota_boundary:
  assumes "users w (req_user req) = Some u"
  shows "(10 \<le> uses u \<longrightarrow>
            (\<forall>a \<in> set (trace (updateChat keys env req w)).
                \<not> is_streaming_action a \<and> \<not> is_pipeline_action a)
          \<and> (\<exists>pre code body.
                trace (updateChat keys env req w) = pre @ [Res_status_json code body]
              \<and> (pre = [] \<or> pre = creation req w) \<and> code \<in> {400, 401, 403, 500})
          \<and> users (updateChat keys env req w) = users w
          \<and> (request_valid env req w \<longrightarrow>
                trace (updateChat keys env req w)
                  = creation req w @ [Res_status_json 403 quota_body]))
       \<and> (uses u = 9 \<and> request_valid env req w \<and> \<not> user_save_rejects env \<longrightarrow>
            headersSent (updateChat keys env req w)
          \<and> (\<exists>rest. trace (updateChat keys env req w)
                       = creation req w @ sse_headers @ User_save (req_user req) 10 # rest)
          \<and> users (updateChat keys env req w) = (users w)(req_user req \<mapsto> u\<lparr>uses := 10\<rparr>))"
proof (intro conjI impI)
  assume over: "10 \<le> uses u"
  with assms have "\<not> passes_validation env req w" by (simp add: passes_validation_def)
  from updateChat_rejected [OF this, of keys] obtain pre code body where
    r: "trace (updateChat keys env req w) = pre @ [Res_status_json code body]"
      "pre = [] \<or> pre = creation req w" "code \<in> {400, 401, 403, 500}"
      "users (updateChat keys env req w) = users w"
      "request_valid env req w \<and> users w (req_user req) \<noteq> None \<longrightarrow>
         pre = creation req w \<and> code = 403 \<and> body = quota_body"
    by blast
  show "\<forall>a \<in> set (trace (updateChat keys env req w)).
          \<not> is_streaming_action a \<and> \<not> is_pipeline_action a"
    using r(1,2) creation_kinds by auto
  show "\<exists>pre code body.
          trace (updateChat keys env req w) = pre @ [Res_status_json code body]
        \<and> (pre = [] \<or> pre = creation req w) \<and> code \<in> {400, 401, 403, 500}"
    using r(1,2,3) by blast
  show "users (updateChat keys env req w) = users w" by (rule r(4))
  show "trace (updateChat keys env req w) = creation req w @ [Res_status_json 403 quota_body]"
    if "request_valid env req w"
    using that r(1,5) assms by simp
next
  assume nine: "uses u = 9 \<and> request_valid env req w \<and> \<not> user_save_rejects env"
  with assms have pv: "passes_validation env req w" by (simp add: passes_validation_def)
  from nine obtain m where m: "body_userMessage req = Some m"
    by (auto simp: request_valid_def Boolean_def split: option.splits)
  let ?front = "creation req w @ sse_headers @ [User_save (req_user req) 10]"
  have "headersSent (updateChat keys env req w)
      \<and> (\<exists>rest. trace (updateChat keys env req w) = ?front @ rest)
      \<and> users (updateChat keys env req w) = (users w)(req_user req \<mapsto> u\<lparr>uses := 10\<rparr>)"
    using pv m assms
  proof (cases rule: updateChat_accepted_cases [where keys = keys])
    case user_save_rejects
    with nine show ?thesis by simp
  next
    case chat_save1_rejects
    with nine show ?thesis by simp
  next
    case (pipeline_throws w3 e w4)
    from stream_frame [OF pipeline_throws(6)] obtain snew
      where "trace w4 = trace w3 @ snew" "users w4 = users w3" by blast
    with pipeline_throws nine show ?thesis by simp
  next
    case (chat_save2_rejects w3 answer srcs w4)
    from stream_frame [OF chat_save2_rejects(7)] obtain snew
      where "trace w4 = trace w3 @ snew" "users w4 = users w3" by blast
    with chat_save2_rejects nine show ?thesis by simp
  next
    case (completed w3 answer srcs w4)
    from stream_frame [OF completed(7)] obtain snew
      where "trace w4 = trace w3 @ snew" "users w4 = users w3" by blast
    with completed nine show ?thesis by simp
  qed
  then show "headersSent (updateChat keys env req w)"
    and "\<exists>rest. trace (updateChat keys env req w)
                  = creation req w @ sse_headers @ User_save (req_user req) 10 # rest"
    and "users (updateChat keys env req w) = (users w)(req_user req \<mapsto> u\<lparr>uses := 10\<rparr>)"
    by simp_all
qed

theorem usage_quota_boundary_witness:
  "trace (updateChat [''k1''] demo_env (demo_request ''u2'' ''What is Section 302 IPC?'') demo_world)
     = [Chats_create ''c1'' ''u2'', Res_status_json 403 quota_body]
   \<and> users (updateChat [''k1''] demo_env
               (demo_request ''u2'' ''What is Section 302 IPC?'') demo_world) ''u2''
       = Some \<lparr>uses = 10\<rparr>
   \<and> headersSent (updateChat [''k1''] demo_env
                    (demo_request ''u1'' ''What is Section 302 IPC?'') demo_world)
   \<and> users (updateChat [''k1''] demo_env
               (demo_request ''u1'' ''What is Section 302 IPC?'') demo_world) ''u1''
       = Some \<lparr>uses = 10\<rparr>"
proof -
  let ?q = "''What is Section 302 IPC?''"
  have u2: "users demo_world (req_user (demo_request ''u2'' ?q)) = Some \<lparr>uses = 10\<rparr>"
    and u1: "users demo_world (req_user (demo_request ''u1'' ?q)) = Some \<lparr>uses = 9\<rparr>"
    by (simp_all add: demo_world_def demo_request_def)
  have valid: "request_valid demo_env (demo_request ''u2'' ?q) demo_world"
    "request_valid demo_env (demo_request ''u1'' ?q) demo_world"
    by (simp_all add: request_valid_def demo_request_def demo_world_def demo_env_fields
        Boolean_def)
  have c: "creation (demo_request ''u2'' ?q) demo_world = [Chats_create ''c1'' ''u2'']"
    by (simp add: creation_def demo_request_def demo_world_def)
  from usage_quota_boundary [OF u2, of "[''k1'']" demo_env] valid(1) c
  have denied: "trace (updateChat [''k1''] demo_env (demo_request ''u2'' ?q) demo_world)
       = [Chats_create ''c1'' ''u2'', Res_status_json 403 quota_body]
     \<and> users (updateChat [''k1''] demo_env (demo_request ''u2'' ?q) demo_world) ''u2''
         = Some \<lparr>uses = 10\<rparr>"
    by (simp add: demo_world_def)
  from usage_quota_boundary [OF u1, of "[''k1'']" demo_env] valid(2)
  have allowed: "headersSent (updateChat [''k1''] demo_env (demo_request ''u1'' ?q) demo_world)
     \<and> users (updateChat [''k1''] demo_env (demo_request ''u1'' ?q) demo_world) ''u1''
         = Some \<lparr>uses = 10\<rparr>"
    by (simp add: demo_env_fields demo_request_def)
  from denied allowed show ?thesis by simp
qed

text \<open>
  C10. On a request that passes validation, the save of the user document completing,
  the usage count is saved once, as the old count plus one, behind the flushed headers
  and before any retrieval or generation call, and the count stored when the request
  ends is the old count plus one, whatever the later store operations, the search and
  the generation stream do: no later step of the request writes the usage store again.
\<close>

theorem usage_increment_persists:
  assumes "passes_validation env req w"
    and "users w (req_user req) = Some u"
    and "\<not> user_save_rejects env"
  shows "users (updateChat keys env req w) = (users w)(req_user req \<mapsto> u\<lparr>uses := uses u + 1\<rparr>)
       \<and> filter is_User_save (trace (updateChat keys env req w))
           = [User_save (req_user req) (uses u + 1)]
       \<and> (\<forall>pre a post. trace (updateChat keys env req w) = pre @ a # post
             \<and> is_retrieval_or_generation a \<longrightarrow>
             User_save (req_user req) (uses u + 1) \<in> set pre)"
proof -
  from assms(1) obtain m where m: "body_userMessage req = Some m"
    by (auto simp: passes_validation_def request_valid_def Boolean_def split: option.splits)
  have c: "filter is_User_save (creation req w) = []"
    using creation_kinds by (auto simp: filter_empty_conv)
  have h: "filter is_User_save sse_headers = []" by (simp add: sse_headers_def)
  have p: "filter is_User_save snew = []" if "\<forall>x \<in> set snew. is_pipeline_action x" for snew
    using that pipeline_action_kinds by (auto simp: filter_empty_conv)
  have stores: "users (updateChat keys env req w) = (users w)(req_user req \<mapsto> u\<lparr>uses := uses u + 1\<rparr>)
       \<and> filter is_User_save (trace (updateChat keys env req w))
           = [User_save (req_user req) (uses u + 1)]"
    using assms(1) m assms(2)
  proof (cases rule: updateChat_accepted_cases [where keys = keys])
    case user_save_rejects
    with assms(3) show ?thesis by simp
  next
    case chat_save1_rejects
    with c h show ?thesis by simp
  next
    case (pipeline_throws w3 e w4)
    from stream_frame [OF pipeline_throws(6)] obtain snew
      where "trace w4 = trace w3 @ snew" "users w4 = users w3"
        "\<forall>x \<in> set snew. is_pipeline_action x" by blast
    with pipeline_throws c h p [of snew] show ?thesis by simp
  next
    case (chat_save2_rejects w3 answer srcs w4)
    from stream_frame [OF chat_save2_rejects(7)] obtain snew
      where "trace w4 = trace w3 @ snew" "users w4 = users w3"
        "\<forall>x \<in> set snew. is_pipeline_action x" by blast
    with chat_save2_rejects c h p [of snew] show ?thesis by simp
  next
    case (completed w3 answer srcs w4)
    from stream_frame [OF completed(7)] obtain snew
      where "trace w4 = trace w3 @ snew" "users w4 = users w3"
        "\<forall>x \<in> set snew. is_pipeline_action x" by blast
    with completed c h p [of snew] show ?thesis by simp
  qed
  have order: "User_save (req_user req) (uses u + 1) \<in> set pre"
    if "trace (updateChat keys env req w) = pre @ a # post" "is_retrieval_or_generation a"
    for pre a post
    using accepted_front [OF assms(1) m assms(2) that] by auto
  from stores order show ?thesis by blast
qed

theorem usage_increment_persists_witness:
  "users (updateChat [''k1''] demo_env_stream_fails
            (demo_request ''u1'' ''What is Section 302 IPC?'') demo_world) ''u1''
     = Some \<lparr>uses = 10\<rparr>
   \<and> last (events_of (trace (updateChat [''k1''] demo_env_stream_fails
                              (demo_request ''u1'' ''What is Section 302 IPC?'') demo_world)))
       = ErrorEvent (ErrorMessage ''An error occurred.'')"
proof -
  let ?req = "demo_request ''u1'' ''What is Section 302 IPC?''"
  have pv: "passes_validation demo_env_stream_fails ?req demo_world"
    by (simp add: demo_passes_validation)
  have u: "users demo_world (req_user ?req) = Some \<lparr>uses = 9\<rparr>"
    by (simp add: demo_world_def demo_request_def)
  have s: "\<not> user_save_rejects demo_env_stream_fails"
    by (simp add: demo_env_stream_fails_fields)
  from usage_increment_persists [OF pv u s, of "[''k1'']"]
  have "users (updateChat [''k1''] demo_env_stream_fails ?req demo_world) ''u1''
          = Some \<lparr>uses = 10\<rparr>"
    by (simp add: demo_request_def)
  then show ?thesis by (simp add: demo_stream_fails_run)
qed

text \<open>
  C9. On a request that passes validation and takes the greeting short-circuit (the input
  is a greeting and the clients of the pipeline can be built), the store completing its
  saves, the conversation stored when the request ends is the previous one
  followed by the user turn and an assistant turn whose text is the literal
  \<open>Greeting\<close> and whose sources are empty; the chunk event streamed to the client
  carries the canned greeting sentence, which is a different text.
\<close>

theorem greeting_turn_stored_as_marker:
  assumes "passes_validation env req w"
    and "body_userMessage req = Some m"
    and "cleanInput m \<in> set greetings \<or> length (cleanInput m) < 3"
    and "resources_build keys env w"
    and "\<not> user_save_rejects env" and "\<not> chat_save1_rejects env" and "\<not> chat_save2_rejects env"
  shows "chats (updateChat keys env req w) (param_chatId req)
           = Some ((found_or_created req w)
                    \<lparr>chatHistory := chatHistory (found_or_created req w)
                                     @ [user_turn env m, assistant_turn env ''Greeting'' []]\<rparr>)
       \<and> events_of (trace (updateChat keys env req w))
           = [SourcesEvent [], ChunkEvent greeting_text, EndEvent]
       \<and> greeting_text \<noteq> ''Greeting''"
proof -
  from assms(1) obtain u where u: "users w (req_user req) = Some u"
    by (auto simp: passes_validation_def split: option.splits)
  have ce: "events_of (creation req w) = []"
    using creation_kinds by (intro events_of_no_writes) blast
  have differs: "greeting_text \<noteq> ''Greeting''" by (simp add: greeting_text_def)
  from assms(1,2) u have "chats (updateChat keys env req w) (param_chatId req)
           = Some ((found_or_created req w)
                    \<lparr>chatHistory := chatHistory (found_or_created req w)
                                     @ [user_turn env m, assistant_turn env ''Greeting'' []]\<rparr>)
       \<and> events_of (trace (updateChat keys env req w))
           = [SourcesEvent [], ChunkEvent greeting_text, EndEvent]"
  proof (cases rule: updateChat_accepted_cases [where keys = keys])
    case user_save_rejects
    with assms(5) show ?thesis by simp
  next
    case chat_save1_rejects
    with assms(6) show ?thesis by simp
  next
    case (pipeline_throws w3 e w4)
    from assms(4) pipeline_throws(11) have "resources_build keys env w3"
      by (simp add: resources_build_def)
    then obtain k where "fst (getResources keys env w3) = Inr k"
      using getResources_builds by blast
    with pipeline_throws(6) assms(3) show ?thesis
      by (cases rule: streamLegalAssistantResponse_cases) simp_all
  next
    case (chat_save2_rejects w3 answer srcs w4)
    with assms(7) show ?thesis by simp
  next
    case (completed w3 answer srcs w4)
    from completed(7) assms(3) have "answer = ''Greeting''" "srcs = []"
      and "trace w4 = trace w3 @ [Res_write (SourcesEvent []), Res_write (ChunkEvent greeting_text),
                                  Res_write EndEvent]"
      by (cases rule: streamLegalAssistantResponse_cases; simp)+
    with completed ce show ?thesis
      by (simp add: events_of_append sse_headers_def)
  qed
  with differs show ?thesis by simp
qed

theorem greeting_turn_stored_as_marker_witness:
  "map_option chatHistory
     (chats (updateChat [''k1''] demo_env (demo_request ''u1'' demo_greeting) demo_world) ''c1'')
     = Some [user_turn demo_env demo_greeting, assistant_turn demo_env ''Greeting'' []]
   \<and> events_of (trace (updateChat [''k1''] demo_env (demo_request ''u1'' demo_greeting) demo_world))
       = [SourcesEvent [], ChunkEvent greeting_text, EndEvent]"
proof -
  let ?req = "demo_request ''u1'' demo_greeting"
  have pv: "passes_validation demo_env ?req demo_world"
    by (simp add: demo_passes_validation demo_greeting_def)
  have m: "body_userMessage ?req = Some demo_greeting" by (simp add: demo_request_def)
  have g: "cleanInput demo_greeting \<in> set greetings \<or> length (cleanInput demo_greeting) < 3"
    by (simp add: demo_cleanInput_greeting greetings_def)
  have s: "\<not> user_save_rejects demo_env" "\<not> chat_save1_rejects demo_env"
    "\<not> chat_save2_rejects demo_env"
    by (simp_all add: demo_env_fields)
  have c: "chatHistory (found_or_created ?req demo_world) = []" "param_chatId ?req = ''c1''"
    by (simp_all add: found_or_created_def new_chat_def demo_request_def demo_world_def)
  from greeting_turn_stored_as_marker [OF pv m g demo_resources_build s] c
  show ?thesis by simp
qed

text \<open>
  C8. In every run of \<open>updateChat\<close> on a request with a message: wherever a retrieval or
  generation call stands in the trace, the save of the conversation with the user turn
  appended stands before it, and that save has written the store: the validation, the
  save of the usage count and the save of the user turn have completed, the world \<open>w3\<close>
  the last one returns is the world the pipeline is started in, in \<open>w3\<close> the
  conversation store holds the previous conversation followed by the user turn, the
  call stands behind the trace of \<open>w3\<close>, the pipeline leaves the conversation store as it
  found it, and the conversation stored when the request ends still begins with the
  previous turns and the user turn, followed by nothing or by the assistant turn.
  Wherever a save of a conversation that ends in an assistant turn stands, it is the
  save of the previous conversation followed by the user turn and the assistant turn,
  the events written before it are the complete stream (the sources event, the chunk
  events, the end event), the assistant turn carries the citations of that sources
  event and the concatenation of those chunks (on the greeting path the literal
  \<open>Greeting\<close>), nothing follows it but the end of the response, and the conversation
  stored when the request ends is that conversation.
\<close>

theorem turns_saved_around_generation:
  assumes "body_userMessage req = Some m"
  shows "(\<forall>pre a post. trace (updateChat keys env req w) = pre @ a # post
             \<and> is_retrieval_or_generation a \<longrightarrow>
             Chat_save (param_chatId req)
               (chatHistory (found_or_created req w) @ [user_turn env m]) \<in> set pre
           \<and> (\<exists>u w1 w2 w3 res w4.
                 pre_sse_validation env req (new_response w)
                   = (Inr (Accepted (found_or_created req w) u), w1)
               \<and> user_save env (req_user req) (u\<lparr>uses := uses u + 1\<rparr>) (setup_sse w1)
                   = (Inr (), w2)
               \<and> chat_save (chat_save1_rejects env) env (param_chatId req)
                    ((found_or_created req w)
                       \<lparr>chatHistory := chatHistory (found_or_created req w) @ [user_turn env m]\<rparr>)
                    w2
                   = (Inr (), w3)
               \<and> streamLegalAssistantResponse keys env m
                    (formattedHistory (chatHistory (found_or_created req w) @ [user_turn env m]))
                    w3
                   = (res, w4)
               \<and> chats w3 (param_chatId req)
                   = Some ((found_or_created req w)
                            \<lparr>chatHistory := chatHistory (found_or_created req w)
                                             @ [user_turn env m]\<rparr>)
               \<and> (\<exists>mid. pre = trace w3 @ mid)
               \<and> chats w4 = chats w3)
           \<and> (\<exists>c' rest. chats (updateChat keys env req w) (param_chatId req) = Some c'
                 \<and> chatHistory c' = chatHistory (found_or_created req w) @ user_turn env m # rest
                 \<and> (rest = [] \<or> (\<exists>answer srcs. rest = [assistant_turn env answer srcs]))))
       \<and> (\<forall>pre a post. trace (updateChat keys env req w) = pre @ a # post
             \<and> saves_assistant_turn a \<longrightarrow>
             (\<exists>answer srcs tokens.
                a = Chat_save (param_chatId req)
                      (chatHistory (found_or_created req w)
                       @ [user_turn env m, assistant_turn env answer srcs])
              \<and> events_of pre = SourcesEvent srcs # map ChunkEvent tokens @ [EndEvent]
              \<and> (answer = concat tokens \<or> (answer = ''Greeting'' \<and> tokens = [greeting_text]))
              \<and> post = [Res_end]
              \<and> chats (updateChat keys env req w) (param_chatId req)
                  = Some ((found_or_created req w)
                           \<lparr>chatHistory := chatHistory (found_or_created req w)
                                            @ [user_turn env m, assistant_turn env answer srcs]\<rparr>)))"
proof (cases "passes_validation env req w")
  case False
  from updateChat_rejected [OF False, of keys] obtain pre0 code body where
    r: "trace (updateChat keys env req w) = pre0 @ [Res_status_json code body]"
      "pre0 = [] \<or> pre0 = creation req w"
    by blast
  then have none: "\<forall>x \<in> set (trace (updateChat keys env req w)).
      \<not> is_retrieval_or_generation x \<and> \<not> saves_assistant_turn x"
    using creation_kinds by auto
  have nowhere: "\<not> is_retrieval_or_generation a \<and> \<not> saves_assistant_turn a"
    if "trace (updateChat keys env req w) = pre @ a # post" for pre a post
  proof -
    from that have "a \<in> set (trace (updateChat keys env req w))" by simp
    with none show ?thesis by blast
  qed
  show ?thesis
  proof (intro conjI allI impI)
    fix pre a post
    assume "trace (updateChat keys env req w) = pre @ a # post \<and> saves_assistant_turn a"
    with nowhere show "\<exists>answer srcs tokens.
            a = Chat_save (param_chatId req)
                  (chatHistory (found_or_created req w)
                   @ [user_turn env m, assistant_turn env answer srcs])
          \<and> events_of pre = SourcesEvent srcs # map ChunkEvent tokens @ [EndEvent]
          \<and> (answer = concat tokens \<or> (answer = ''Greeting'' \<and> tokens = [greeting_text]))
          \<and> post = [Res_end]
          \<and> chats (updateChat keys env req w) (param_chatId req)
              = Some ((found_or_created req w)
                       \<lparr>chatHistory := chatHistory (found_or_created req w)
                                        @ [user_turn env m, assistant_turn env answer srcs]\<rparr>)"
      by blast
  qed (use nowhere in blast)+
next
  case True
  then obtain u where u: "users w (req_user req) = Some u"
    by (auto simp: passes_validation_def split: option.splits)
  show ?thesis
  proof (intro conjI allI impI)
    fix pre a post
    assume "trace (updateChat keys env req w) = pre @ a # post \<and> saves_assistant_turn a"
    then show "\<exists>answer srcs tokens.
            a = Chat_save (param_chatId req)
                  (chatHistory (found_or_created req w)
                   @ [user_turn env m, assistant_turn env answer srcs])
          \<and> events_of pre = SourcesEvent srcs # map ChunkEvent tokens @ [EndEvent]
          \<and> (answer = concat tokens \<or> (answer = ''Greeting'' \<and> tokens = [greeting_text]))
          \<and> post = [Res_end]
          \<and> chats (updateChat keys env req w) (param_chatId req)
              = Some ((found_or_created req w)
                       \<lparr>chatHistory := chatHistory (found_or_created req w)
                                        @ [user_turn env m, assistant_turn env answer srcs]\<rparr>)"
      using assistant_save_position [OF True assms u, of keys pre a post] by blast
  next
    fix pre a post
    assume "trace (updateChat keys env req w) = pre @ a # post \<and> is_retrieval_or_generation a"
    then show "Chat_save (param_chatId req)
            (chatHistory (found_or_created req w) @ [user_turn env m]) \<in> set pre"
      using accepted_front [OF True assms u, of keys pre a post] by auto
  next
    fix pre a post
    assume o: "trace (updateChat keys env req w) = pre @ a # post \<and> is_retrieval_or_generation a"
    then have tr: "trace (updateChat keys env req w) = pre @ a # post"
      and q: "is_retrieval_or_generation a"
      by simp_all
    from pipeline_started [OF True assms u tr q]
    have ok: "\<not> user_save_rejects env" "\<not> chat_save1_rejects env" by simp_all
    from pipeline_entry [OF True assms u ok] obtain w1 w2 w3 where
      e: "pre_sse_validation env req (new_response w)
            = (Inr (Accepted (found_or_created req w) u), w1)"
        "user_save env (req_user req) (u\<lparr>uses := uses u + 1\<rparr>) (setup_sse w1) = (Inr (), w2)"
        "chat_save (chat_save1_rejects env) env (param_chatId req)
           ((found_or_created req w)
              \<lparr>chatHistory := chatHistory (found_or_created req w) @ [user_turn env m]\<rparr>) w2
           = (Inr (), w3)"
        "chats w3 (param_chatId req)
           = Some ((found_or_created req w)
                    \<lparr>chatHistory := chatHistory (found_or_created req w) @ [user_turn env m]\<rparr>)"
        "trace w3 = creation req w @ sse_headers
                    @ [User_save (req_user req) (uses u + 1),
                       Chat_save (param_chatId req)
                         (chatHistory (found_or_created req w) @ [user_turn env m])]"
      by blast
    obtain res w4 where run: "streamLegalAssistantResponse keys env m
        (formattedHistory (chatHistory (found_or_created req w) @ [user_turn env m])) w3
        = (res, w4)"
      by (cases "streamLegalAssistantResponse keys env m
        (formattedHistory (chatHistory (found_or_created req w) @ [user_turn env m])) w3")
    from stream_frame [OF run] have fr: "chats w4 = chats w3" by blast
    from accepted_front [OF True assms u tr q] e(5) have mid: "\<exists>mid. pre = trace w3 @ mid"
      by simp
    from e(1-4) run mid fr
    show "\<exists>u w1 w2 w3 res w4.
                 pre_sse_validation env req (new_response w)
                   = (Inr (Accepted (found_or_created req w) u), w1)
               \<and> user_save env (req_user req) (u\<lparr>uses := uses u + 1\<rparr>) (setup_sse w1)
                   = (Inr (), w2)
               \<and> chat_save (chat_save1_rejects env) env (param_chatId req)
                    ((found_or_created req w)
                       \<lparr>chatHistory := chatHistory (found_or_created req w) @ [user_turn env m]\<rparr>)
                    w2
                   = (Inr (), w3)
               \<and> streamLegalAssistantResponse keys env m
                    (formattedHistory (chatHistory (found_or_created req w) @ [user_turn env m]))
                    w3
                   = (res, w4)
               \<and> chats w3 (param_chatId req)
                   = Some ((found_or_created req w)
                            \<lparr>chatHistory := chatHistory (found_or_created req w)
                                             @ [user_turn env m]\<rparr>)
               \<and> (\<exists>mid. pre = trace w3 @ mid)
               \<and> chats w4 = chats w3"
      by blast
  next
    fix pre a post
    assume o: "trace (updateChat keys env req w) = pre @ a # post \<and> is_retrieval_or_generation a"
    then have tr: "trace (updateChat keys env req w) = pre @ a # post"
      and q: "is_retrieval_or_generation a"
      by simp_all
    from pipeline_started [OF True assms u tr q]
    show "\<exists>c' rest. chats (updateChat keys env req w) (param_chatId req) = Some c'
                 \<and> chatHistory c' = chatHistory (found_or_created req w) @ user_turn env m # rest
                 \<and> (rest = [] \<or> (\<exists>answer srcs. rest = [assistant_turn env answer srcs]))"
      by simp
  qed
qed

theorem turns_saved_around_generation_witness:
  "(let final = updateChat [''k1''] demo_env
                  (demo_request ''u1'' ''What is Section 302 IPC?'') demo_world;
        tr = trace final
    in is_retrieval_or_generation (tr ! 7)
       \<and> Chat_save ''c1'' [user_turn demo_env ''What is Section 302 IPC?''] \<in> set (take 7 tr)
       \<and> saves_assistant_turn (tr ! 13)
       \<and> drop 14 tr = [Res_end]
       \<and> map_option chatHistory (chats final ''c1'')
           = Some [user_turn demo_env ''What is Section 302 IPC?'',
                   assistant_turn demo_env ''Section 302 punishes murder.''
                     [\<lparr>case_title = ''A v B'', source_url = ''u2'', score = Num (7 / 10)\<rparr>]])"
proof -
  let ?req = "demo_request ''u1'' ''What is Section 302 IPC?''"
  let ?final = "updateChat [''k1''] demo_env ?req demo_world"
  let ?tr = "trace ?final"
  let ?srcs = "[\<lparr>case_title = ''A v B'', source_url = ''u2'', score = Num (7 / 10)\<rparr>]"
  have m: "body_userMessage ?req = Some ''What is Section 302 IPC?''"
    by (simp add: demo_request_def)
  have len: "length ?tr = 15" by (simp add: demo_question_trace)
  have s7: "?tr = take 7 ?tr @ ?tr ! 7 # drop 8 ?tr"
    and s13: "?tr = take 13 ?tr @ ?tr ! 13 # drop 14 ?tr"
    using id_take_nth_drop [of 7 ?tr] id_take_nth_drop [of 13 ?tr] len by simp_all
  have q7: "is_retrieval_or_generation (?tr ! 7)"
    and q13: "saves_assistant_turn (?tr ! 13)"
    by (simp_all add: demo_question_trace assistant_turn_def)
  have a13: "?tr ! 13 = Chat_save ''c1''
      [user_turn demo_env ''What is Section 302 IPC?'',
       assistant_turn demo_env ''Section 302 punishes murder.'' ?srcs]"
    by (simp add: demo_question_trace)
  have c: "chatHistory (found_or_created ?req demo_world) = []" "param_chatId ?req = ''c1''"
    by (simp_all add: found_or_created_def new_chat_def demo_request_def demo_world_def)
  from turns_saved_around_generation [OF m, of "[''k1'']" demo_env demo_world] s7 q7 c
  have a: "Chat_save ''c1'' [user_turn demo_env ''What is Section 302 IPC?''] \<in> set (take 7 ?tr)"
    by (metis append_Nil)
  from turns_saved_around_generation [OF m, of "[''k1'']" demo_env demo_world] s13 q13
  obtain answer srcs where
    b: "?tr ! 13 = Chat_save (param_chatId ?req)
          (chatHistory (found_or_created ?req demo_world)
           @ [user_turn demo_env ''What is Section 302 IPC?'', assistant_turn demo_env answer srcs])"
      "drop 14 ?tr = [Res_end]"
      "chats ?final (param_chatId ?req)
         = Some ((found_or_created ?req demo_world)
                  \<lparr>chatHistory := chatHistory (found_or_created ?req demo_world)
                     @ [user_turn demo_env ''What is Section 302 IPC?'',
                        assistant_turn demo_env answer srcs]\<rparr>)"
    by blast
  from b(1) a13 c have "assistant_turn demo_env answer srcs
      = assistant_turn demo_env ''Section 302 punishes murder.'' ?srcs"
    by simp
  with b(3) c have st: "map_option chatHistory (chats ?final ''c1'')
      = Some [user_turn demo_env ''What is Section 302 IPC?'',
              assistant_turn demo_env ''Section 302 punishes murder.'' ?srcs]"
    by simp
  from q7 a q13 b(2) st show ?thesis by (simp add: Let_def)
qed

section \<open>The recommendation filter of the summarisation path\<close>

text \<open>
  C2. The filter of \<open>summarizeLegalDocument\<close> keeps a candidate when
  \<open>score < 0.35 || score >= 0.5\<close>: it keeps the scores 0.1 and 0.9 and drops 0.4, which
  no single threshold direction does. On the results of one search, the chat pipeline
  (cosine, \<open>score >= 0.6\<close>) drops the candidate with score 0.1 and the summarisation
  path returns it as a recommendation.
\<close>

theorem summarize_filter_mixes_directions:
  "summarize_keeps (Num (1 / 10)) \<and> \<not> summarize_keeps (Num (4 / 10))
   \<and> summarize_keeps (Num (9 / 10))
   \<and> map case_title (uniqueSources demo_results) = [''A v B'']
   \<and> map (\<lambda>s. (case_title s, score s)) (summarize_sources demo_results)
       = [(''A v B'', Num (7 / 10)), (''C v D'', Num (1 / 10))]"
proof -
  have keeps: "summarize_keeps (Num (1 / 10)) \<and> \<not> summarize_keeps (Num (4 / 10))
      \<and> summarize_keeps (Num (9 / 10))"
    by (simp add: summarize_keeps_def double_0_35_def double_0_5_def)
  have chat: "map case_title (uniqueSources demo_results) = [''A v B'']"
    by (simp add: demo_uniqueSources)
  have summary: "map (\<lambda>s. (case_title s, score s)) (summarize_sources demo_results)
       = [(''A v B'', Num (7 / 10)), (''C v D'', Num (1 / 10))]"
    by (simp add: summarize_keeps_def double_0_35_def double_0_5_def summarize_sources_def
        summarize_source_def demo_results_def doc_first_def doc_second_def doc_weak_def
        dedupe_by_title_def Map_values_def new_Map_def or_str_def js_or_def Boolean_def)
  from keeps chat summary show ?thesis by simp
qed


end
